theory Spec2Isabelle
  imports Main "HOL-Library.Word" "HOL-Library.Finite_Map" "HOL-Library.Multiset" "HOL-Library.AList"
begin

unbundle bit_operations_syntax

section \<open>Values, tuples and errors\<close>

text \<open>
  GoDB reports failures as \<open>GoDBError\<close> values with a code, or as errors built with
  \<open>fmt.Errorf\<close>, or passes on the error of an I/O call. A runtime panic (integer division
  by zero, an index out of range) is no returned error: a function that can panic returns
  an \<open>option\<close>, and \<open>None\<close> is the panic.
\<close>

datatype GoDBError =
    TupleNotFoundError
  | PageFullError
  | IncompatibleTypesError
  | TypeMismatchError
  | MalformedDataError
  | BufferPoolFullError
  | IOError string
  | Errorf string

type_synonym byte = "8 word"

datatype DBType = IntType | StringType

record FieldType =
  Fname :: string
  TableQualifier :: string
  Ftype :: DBType

type_synonym TupleDesc = "FieldType list"

text \<open>
  An \<open>IntField\<close> holds an \<open>int64\<close>. A Go string is a sequence of bytes, so a
  \<open>StringField\<close> holds a byte list.
\<close>

datatype DBValue = IntField "64 word" | StringField "byte list"

text \<open>
  \<open>Tuple.Rid\<close> has the interface type \<open>recordID\<close>: it is \<open>nil\<close>, a \<open>heapFileRid\<close>, or a
  value of some other type.
\<close>

datatype recordID = heapFileRid int int | otherRid nat

record Tuple =
  Desc :: TupleDesc
  Fields :: "DBValue list"
  Rid :: "recordID option"

text \<open>
  Modelled from the spec: \<open>PageSize\<close> is declared in a file that is not under src/; the
  spec gives its canonical value.
\<close>

definition PageSize :: int where
  "PageSize = 4096"

text \<open>
  Modelled from the spec: \<open>TupleDesc.bytesPerTuple\<close> is not under src/. The spec has
  \<open>bytes_per_tuple\<close> the sum of the field sizes, an Int 8 bytes and a String
  \<open>StringLength\<close> bytes. The constant \<open>StringLength\<close> is not under src/ either and the
  spec gives it no value: it is the parameter \<open>sl\<close> of every function that needs it.
\<close>

definition fieldSize :: "nat \<Rightarrow> FieldType \<Rightarrow> int" where
  "fieldSize sl ft = (case Ftype ft of IntType \<Rightarrow> 8 | StringType \<Rightarrow> int sl)"

definition bytesPerTuple :: "nat \<Rightarrow> TupleDesc \<Rightarrow> int" where
  "bytesPerTuple sl desc = sum_list (map (fieldSize sl) desc)"

section \<open>Heap pages\<close>

text \<open>
  The struct \<open>heapPage\<close>. \<open>numSlots\<close> and \<open>numUsed\<close> are \<open>int32\<close>; a slot is a pointer
  to a tuple or \<open>nil\<close>; the field \<open>file\<close>, here \<open>hfile\<close>, refers to the owning heap file
  and is kept as the name of its backing file, which is all that is read through it.
\<close>

record heapPage =
  desc :: TupleDesc
  numSlots :: "32 word"
  numUsed :: "32 word"
  dirty :: bool
  tuples :: "Tuple option list"
  pageNo :: int
  hfile :: string

text \<open>
  \<open>newHeapPage\<close>: Go's integer division panics on a zero divisor, and \<open>make\<close> panics on
  a negative length. Both operands of the division are non-negative, where Go's
  truncating division is \<open>div\<close>.
\<close>

definition newHeapPage :: "nat \<Rightarrow> TupleDesc \<Rightarrow> int \<Rightarrow> string \<Rightarrow> heapPage option" where
  "newHeapPage sl d pno f =
     (if bytesPerTuple sl d = 0 then None
      else let ns = (word_of_int ((PageSize - 8) div bytesPerTuple sl d) :: 32 word) in
        if sint ns < 0 then None
        else Some \<lparr>desc = d, numSlots = ns, numUsed = 0, dirty = False,
                   tuples = replicate (nat (sint ns)) None, pageNo = pno, hfile = f\<rparr>)"

definition getNumEmptySlots :: "heapPage \<Rightarrow> int" where
  "getNumEmptySlots h = sint (numSlots h - numUsed h)"

definition getNumSlots :: "heapPage \<Rightarrow> int" where
  "getNumSlots h = sint (numSlots h)"

definition setDirty :: "heapPage \<Rightarrow> bool \<Rightarrow> heapPage" where
  "setDirty h d = h\<lparr>dirty := d\<rparr>"

definition isDirty :: "heapPage \<Rightarrow> bool" where
  "isDirty h = dirty h"

text \<open>
  \<open>heapPage.insertTuple\<close> scans the slots \<open>0 .. numSlots - 1\<close> for the first \<open>nil\<close> one;
  \<open>k\<close> counts the slots still to visit. It returns the page and the tuple with its rid
  set, or \<open>ErrPageFull\<close>; reading a slot beyond the slice panics.
\<close>

fun insertScan :: "heapPage \<Rightarrow> Tuple \<Rightarrow> nat \<Rightarrow> nat \<Rightarrow> (GoDBError + heapPage \<times> Tuple) option" where
  "insertScan h t i 0 = Some (Inl PageFullError)"
| "insertScan h t i (Suc k) =
     (if i \<ge> length (tuples h) then None
      else case tuples h ! i of
        None \<Rightarrow>
          (let t' = t\<lparr>Rid := Some (heapFileRid (pageNo h) (int i))\<rparr>
           in Some (Inr (h\<lparr>tuples := (tuples h)[i := Some t'], numUsed := numUsed h + 1\<rparr>, t')))
      | Some _ \<Rightarrow> insertScan h t (Suc i) k)"

definition page_insertTuple :: "heapPage \<Rightarrow> Tuple \<Rightarrow> (GoDBError + heapPage \<times> Tuple) option" where
  "page_insertTuple h t = insertScan h t 0 (nat (sint (numSlots h)))"

text \<open>\<open>heapPage.deleteTuple\<close>, with the type assertion on the rid it is given.\<close>

definition page_deleteTuple :: "heapPage \<Rightarrow> recordID \<Rightarrow> (GoDBError option \<times> heapPage) option" where
  "page_deleteTuple h rid =
     (case rid of
        otherRid _ \<Rightarrow> Some (Some TupleNotFoundError, h)
      | heapFileRid _ slot \<Rightarrow>
          if slot < 0 \<or> slot \<ge> sint (numSlots h) then Some (Some TupleNotFoundError, h)
          else if nat slot \<ge> length (tuples h) then None
          else (case tuples h ! nat slot of
                  None \<Rightarrow> Some (Some TupleNotFoundError, h)
                | Some _ \<Rightarrow>
                    Some (None, h\<lparr>numUsed := numUsed h - 1,
                                  tuples := (tuples h)[nat slot := None]\<rparr>)))"

section \<open>Serialization\<close>

text \<open>
  \<open>binary.Write\<close> and \<open>binary.Read\<close> in \<open>LittleEndian\<close> order: the \<open>n\<close> bytes of a
  word, lowest first. A \<open>bytes.Buffer\<close> is the list of its unread bytes; a read takes them
  from the front and fails when too few are left.
\<close>

definition le_bytes :: "nat \<Rightarrow> 'a::len word \<Rightarrow> byte list" where
  "le_bytes n w = map (\<lambda>i. ucast (drop_bit (8 * i) w)) [0..<n]"

definition le_word :: "byte list \<Rightarrow> 'a::len word" where
  "le_word bs = foldr (\<lambda>b acc. ucast b OR push_bit 8 acc) bs 0"

definition readInt32 :: "byte list \<Rightarrow> GoDBError + 32 word \<times> byte list" where
  "readInt32 buf =
     (if length buf < 4 then Inl (IOError ''EOF'') else Inr (le_word (take 4 buf), drop 4 buf))"

text \<open>
  Modelled from the spec: \<open>Tuple.writeTo\<close> and \<open>readTupleFrom\<close> are not under src/. The
  spec has an Int on the wire as 8 bytes, little-endian, and a String as exactly
  \<open>StringLength\<close> bytes with trailing zero padding (longer strings are cut). Reading
  takes the fields of the descriptor in order, drops the padding of a String, and gives a
  tuple with that descriptor and no rid.
\<close>

definition writeField :: "nat \<Rightarrow> DBValue \<Rightarrow> byte list" where
  "writeField sl v =
     (case v of
        IntField x \<Rightarrow> le_bytes 8 x
      | StringField s \<Rightarrow> take sl s @ replicate (sl - length s) 0)"

definition writeTo :: "nat \<Rightarrow> Tuple \<Rightarrow> byte list" where
  "writeTo sl t = concat (map (writeField sl) (Fields t))"

definition stripPadding :: "byte list \<Rightarrow> byte list" where
  "stripPadding bs = rev (dropWhile (\<lambda>b. b = 0) (rev bs))"

fun readFields :: "nat \<Rightarrow> TupleDesc \<Rightarrow> byte list \<Rightarrow> GoDBError + DBValue list \<times> byte list" where
  "readFields sl [] buf = Inr ([], buf)"
| "readFields sl (ft # fts) buf =
     (let n = (case Ftype ft of IntType \<Rightarrow> 8 | StringType \<Rightarrow> sl)
      in if length buf < n then Inl (IOError ''EOF'')
         else case readFields sl fts (drop n buf) of
                Inl e \<Rightarrow> Inl e
              | Inr (vs, rest) \<Rightarrow>
                  Inr ((case Ftype ft of
                          IntType \<Rightarrow> IntField (le_word (take n buf))
                        | StringType \<Rightarrow> StringField (stripPadding (take n buf))) # vs, rest))"

definition readTupleFrom :: "nat \<Rightarrow> TupleDesc \<Rightarrow> byte list \<Rightarrow> GoDBError + Tuple \<times> byte list" where
  "readTupleFrom sl d buf =
     (case readFields sl d buf of
        Inl e \<Rightarrow> Inl e
      | Inr (vs, rest) \<Rightarrow> Inr (\<lparr>Desc = d, Fields = vs, Rid = None\<rparr>, rest))"

text \<open>
  \<open>heapPage.toBuffer\<close>: the two header words, then every slot that is not \<open>nil\<close>, in
  slot order, then zero padding up to \<open>PageSize\<close>; \<open>MalformedDataError\<close> when the tuples
  do not fit.
\<close>

definition toBuffer :: "nat \<Rightarrow> heapPage \<Rightarrow> GoDBError + byte list" where
  "toBuffer sl h =
     (let b = le_bytes 4 (numSlots h) @ le_bytes 4 (numUsed h)
              @ concat (map (\<lambda>s. case s of None \<Rightarrow> [] | Some t \<Rightarrow> writeTo sl t) (tuples h))
      in if int (length b) > PageSize then Inl MalformedDataError
         else Inr (b @ replicate (nat (PageSize - int (length b))) 0))"

text \<open>The bytes of a page with \<open>ns\<close> slots and no tuple, as \<open>toBuffer\<close> writes them.\<close>

definition emptyImage :: "32 word \<Rightarrow> byte list" where
  "emptyImage ns = le_bytes 4 ns @ le_bytes 4 (0 :: 32 word) @ replicate 4088 0"

text \<open>
  The loop of \<open>heapPage.initFromBuffer\<close>, \<open>for i := 0; i < numUsedHeader; i++\<close>, with
  \<open>k\<close> the number of rounds left. The source sets the rid of the tuple it read before it
  looks at the error of \<open>readTupleFrom\<close>; the model takes the error as returned. Storing
  at an index beyond the slice panics.
\<close>

fun readSlots :: "nat \<Rightarrow> TupleDesc \<Rightarrow> int \<Rightarrow> nat \<Rightarrow> nat \<Rightarrow> byte list \<Rightarrow> Tuple option list
    \<Rightarrow> (GoDBError + Tuple option list) option" where
  "readSlots sl d pno i 0 buf tups = Some (Inr tups)"
| "readSlots sl d pno i (Suc k) buf tups =
     (case readTupleFrom sl d buf of
        Inl e \<Rightarrow> Some (Inl e)
      | Inr (t, rest) \<Rightarrow>
          if i \<ge> length tups then None
          else readSlots sl d pno (Suc i) k rest
                 (tups[i := Some (t\<lparr>Rid := Some (heapFileRid pno (int i))\<rparr>)]))"

definition initFromBuffer :: "nat \<Rightarrow> heapPage \<Rightarrow> byte list \<Rightarrow> (GoDBError + heapPage) option" where
  "initFromBuffer sl h buf =
     (case readInt32 buf of
        Inl e \<Rightarrow> Some (Inl e)
      | Inr (numSlotsHeader, buf1) \<Rightarrow>
          (case readInt32 buf1 of
             Inl e \<Rightarrow> Some (Inl e)
           | Inr (numUsedHeader, buf2) \<Rightarrow>
               if sint numSlotsHeader < 0 then None
               else (case readSlots sl (desc h) (pageNo h) 0 (nat (sint numUsedHeader)) buf2
                            (replicate (nat (sint numSlotsHeader)) None) of
                       None \<Rightarrow> None
                     | Some (Inl e) \<Rightarrow> Some (Inl e)
                     | Some (Inr tups) \<Rightarrow>
                         Some (Inr (h\<lparr>numSlots := numSlotsHeader, numUsed := numUsedHeader,
                                      dirty := False, tuples := tups\<rparr>)))))"

section \<open>Heap files on disk\<close>

text \<open>
  The struct \<open>HeapFile\<close>; the buffer pool it points to is a state of its own, passed
  beside it. The disk gives every file name the bytes of that file: a heap file opens its
  backing file with \<open>O_CREATE\<close>, so a file that was never written is the empty one.
  \<open>ReadAt\<close> fails when the file ends before the buffer is full, \<open>WriteAt\<close> past the end
  fills the gap with zeros, and both refuse a negative offset; no other I/O error is
  modelled.
\<close>

record HeapFile =
  td :: TupleDesc
  numPages :: int
  backingFile :: string
  lastEmptyPage :: int

type_synonym disk = "string \<Rightarrow> byte list"

definition writeAt :: "byte list \<Rightarrow> nat \<Rightarrow> byte list \<Rightarrow> byte list" where
  "writeAt content off bs =
     take off content @ replicate (off - length content) 0 @ bs @ drop (off + length bs) content"

definition flushPage :: "nat \<Rightarrow> string \<Rightarrow> disk \<Rightarrow> heapPage \<Rightarrow> GoDBError option \<times> disk" where
  "flushPage sl fname dk hp =
     (case toBuffer sl hp of
        Inl e \<Rightarrow> (Some e, dk)
      | Inr buf \<Rightarrow>
          if pageNo hp * PageSize < 0 then (Some (IOError ''negative offset''), dk)
          else (None, dk(fname := writeAt (dk fname) (nat (pageNo hp * PageSize)) buf)))"

text \<open>
  \<open>HeapFile.readPage\<close>. The source drops the error that \<open>initFromBuffer\<close> returns: the
  page then stays as \<open>newHeapPage\<close> made it.
\<close>

definition readPage :: "nat \<Rightarrow> disk \<Rightarrow> HeapFile \<Rightarrow> int \<Rightarrow> (GoDBError + heapPage) option" where
  "readPage sl dk f pno =
     (if pno * PageSize < 0 then Some (Inl (IOError ''negative offset''))
      else if int (length (dk (backingFile f))) < pno * PageSize + PageSize
        then Some (Inl (IOError ''EOF''))
      else (case newHeapPage sl (td f) pno (backingFile f) of
              None \<Rightarrow> None
            | Some pg \<Rightarrow>
                (case initFromBuffer sl pg
                        (take (nat PageSize) (drop (nat (pno * PageSize)) (dk (backingFile f)))) of
                   None \<Rightarrow> None
                 | Some (Inl e) \<Rightarrow> Some (Inr pg)
                 | Some (Inr pg') \<Rightarrow> Some (Inr pg'))))"

section \<open>The buffer pool\<close>

text \<open>
  The struct \<open>BufferPool\<close>: \<open>pages\<close> is a Go map from page keys (\<open>heapHash\<close>: file name and
  page number) to pages; the cached page is shared with whoever got it from \<open>GetPage\<close>, so
  a change to such a page is written to \<open>pages\<close> under its key. Go leaves the order in
  which \<open>range\<close> visits a map open: \<open>rangeOrder n\<close> is the order in which the \<open>n\<close>-th
  \<open>range\<close> statement over \<open>pages\<close> visits its keys (a list of the keys; what is proved
  below holds for every list), and \<open>rangeCount\<close> counts these statements. The log file
  of the pool is part of the state of recovery below.
\<close>

type_synonym heapHash = "string \<times> int"

record BufferPool =
  pages :: "(heapHash, heapPage) fmap"
  maxPages :: int
  rangeOrder :: "nat \<Rightarrow> heapHash list"
  rangeCount :: nat

definition pageKey :: "HeapFile \<Rightarrow> int \<Rightarrow> heapHash" where
  "pageKey f pno = (backingFile f, pno)"

definition cleanAt :: "(heapHash, heapPage) fmap \<Rightarrow> heapHash \<Rightarrow> bool" where
  "cleanAt m k = (case fmlookup m k of None \<Rightarrow> False | Some pg \<Rightarrow> \<not> isDirty pg)"

definition evictPage :: "BufferPool \<Rightarrow> GoDBError option \<times> BufferPool" where
  "evictPage bp =
     (if int (fcard (fmdom (pages bp))) < maxPages bp then (None, bp)
      else let bp1 = bp\<lparr>rangeCount := Suc (rangeCount bp)\<rparr>
           in case find (cleanAt (pages bp)) (rangeOrder bp (rangeCount bp)) of
                Some k \<Rightarrow> (None, bp1\<lparr>pages := fmdrop k (pages bp)\<rparr>)
              | None \<Rightarrow> (Some BufferPoolFullError, bp1))"

text \<open>
  \<open>BufferPool.GetPage\<close>; the transaction and the permission it is given are not used by
  the source and are left out.
\<close>

definition GetPage :: "nat \<Rightarrow> BufferPool \<Rightarrow> disk \<Rightarrow> HeapFile \<Rightarrow> int
    \<Rightarrow> ((GoDBError + heapPage) \<times> BufferPool) option" where
  "GetPage sl bp dk f pno =
     (case fmlookup (pages bp) (pageKey f pno) of
        Some pg \<Rightarrow> Some (Inr pg, bp)
      | None \<Rightarrow>
          (case evictPage bp of
             (Some e, bp1) \<Rightarrow> Some (Inl e, bp1)
           | (None, bp1) \<Rightarrow>
               (case readPage sl dk f pno of
                  None \<Rightarrow> None
                | Some (Inl e) \<Rightarrow> Some (Inl e, bp1)
                | Some (Inr pg) \<Rightarrow>
                    Some (Inr pg, bp1\<lparr>pages := fmupd (pageKey f pno) pg (pages bp1)\<rparr>))))"

text \<open>
  A run of \<open>GetPage\<close> calls, one after the other on the pool the last one left, whatever
  each returned; a panic ends it.
\<close>

fun GetPages :: "nat \<Rightarrow> BufferPool \<Rightarrow> disk \<Rightarrow> (HeapFile \<times> int) list \<Rightarrow> BufferPool option" where
  "GetPages sl bp dk [] = Some bp"
| "GetPages sl bp dk (r # rs) =
     (case GetPage sl bp dk (fst r) (snd r) of
        None \<Rightarrow> None
      | Some (res, bp') \<Rightarrow> GetPages sl bp' dk rs)"

definition cacheSize :: "BufferPool \<Rightarrow> int" where
  "cacheSize bp = int (fcard (fmdom (pages bp)))"

definition allDirty :: "BufferPool \<Rightarrow> bool" where
  "allDirty bp = fmpred (\<lambda>k pg. isDirty pg) (pages bp)"

section \<open>Heap files: inserting and deleting tuples\<close>

text \<open>
  The probing loop of \<open>HeapFile.insertTuple\<close>, \<open>for p := start; p < endPage; p++\<close>. It
  ends the call (\<open>Inl\<close>: the error or \<open>nil\<close> returned, the file and the pool as they are
  then) or runs out of pages (\<open>Inr\<close>: the pool as it is then). A page that \<open>GetPage\<close>
  returned is the cached one, so the page with the new tuple, marked dirty, is stored
  under its key.
\<close>

function probeLoop :: "nat \<Rightarrow> HeapFile \<Rightarrow> BufferPool \<Rightarrow> disk \<Rightarrow> Tuple \<Rightarrow> int \<Rightarrow> int
    \<Rightarrow> ((GoDBError option \<times> HeapFile \<times> BufferPool) + BufferPool) option" where
  "probeLoop sl f bp dk t p endPage =
     (if p < endPage then
        (case GetPage sl bp dk f p of
           None \<Rightarrow> None
         | Some (Inl e, bp1) \<Rightarrow> Some (Inl (Some e, f, bp1))
         | Some (Inr pg, bp1) \<Rightarrow>
             if getNumEmptySlots pg = 0 then probeLoop sl f bp1 dk t (p + 1) endPage
             else (case GetPage sl bp1 dk f p of
                     None \<Rightarrow> None
                   | Some (Inl e, bp2) \<Rightarrow> Some (Inl (Some e, f, bp2))
                   | Some (Inr heapp, bp2) \<Rightarrow>
                       (case page_insertTuple heapp t of
                          None \<Rightarrow> None
                        | Some (Inl e) \<Rightarrow>
                            if e \<noteq> PageFullError then Some (Inl (Some e, f, bp2))
                            else probeLoop sl f bp2 dk t (p + 1) endPage
                        | Some (Inr (heapp', t')) \<Rightarrow>
                            Some (Inl (None, f\<lparr>lastEmptyPage := p\<rparr>,
                              bp2\<lparr>pages := fmupd (pageKey f p) (setDirty heapp' True) (pages bp2)\<rparr>)))))
      else Some (Inr bp))"
  by pat_completeness auto
termination
  by (relation "measure (\<lambda>(sl, f, bp, dk, t, p, endPage). nat (endPage - p))") auto

definition probeStart :: "HeapFile \<Rightarrow> int" where
  "probeStart f = (if lastEmptyPage f = - 1 then 0 else lastEmptyPage f)"

text \<open>
  \<open>HeapFile.insertTuple\<close>. It returns the error (or \<open>nil\<close>), the heap file, the pool and
  the disk.
\<close>

definition insertTuple :: "nat \<Rightarrow> HeapFile \<Rightarrow> BufferPool \<Rightarrow> disk \<Rightarrow> Tuple
    \<Rightarrow> (GoDBError option \<times> HeapFile \<times> BufferPool \<times> disk) option" where
  "insertTuple sl f bp dk t =
     (case probeLoop sl f bp dk t (probeStart f) (numPages f) of
        None \<Rightarrow> None
      | Some (Inl (e, f', bp')) \<Rightarrow> Some (e, f', bp', dk)
      | Some (Inr bp1) \<Rightarrow>
          (case newHeapPage sl (td f) (numPages f) (backingFile f) of
             None \<Rightarrow> None
           | Some heapp \<Rightarrow>
               (case flushPage sl (backingFile f) dk heapp of
                  (Some e, dk1) \<Rightarrow> Some (Some e, f, bp1, dk1)
                | (None, dk1) \<Rightarrow>
                    (let p = numPages f;
                         f1 = f\<lparr>lastEmptyPage := numPages f, numPages := numPages f + 1\<rparr>
                     in case GetPage sl bp1 dk1 f1 p of
                          None \<Rightarrow> None
                        | Some (Inl e, bp2) \<Rightarrow> Some (Some e, f1, bp2, dk1)
                        | Some (Inr pg, bp2) \<Rightarrow>
                            (case page_insertTuple pg t of
                               None \<Rightarrow> None
                             | Some (Inl e) \<Rightarrow> Some (Some e, f1, bp2, dk1)
                             | Some (Inr (pg', t')) \<Rightarrow>
                                 Some (None, f1\<lparr>lastEmptyPage := p\<rparr>,
                                   bp2\<lparr>pages := fmupd (pageKey f1 p) (setDirty pg' True) (pages bp2)\<rparr>,
                                   dk1))))))"

text \<open>
  \<open>HeapFile.deleteTuple\<close>. The page is marked dirty before \<open>heapPage.deleteTuple\<close> looks
  at the slot; the page is the cached one, so it is stored under its key as the call
  leaves it.
\<close>

definition deleteTuple :: "nat \<Rightarrow> HeapFile \<Rightarrow> BufferPool \<Rightarrow> disk \<Rightarrow> Tuple
    \<Rightarrow> (GoDBError option \<times> HeapFile \<times> BufferPool) option" where
  "deleteTuple sl f bp dk t =
     (case Rid t of
        None \<Rightarrow> Some (Some TupleNotFoundError, f, bp)
      | Some (otherRid x) \<Rightarrow> Some (Some TupleNotFoundError, f, bp)
      | Some (heapFileRid pno slot) \<Rightarrow>
          if pno < 0 \<or> pno \<ge> numPages f then Some (Some TupleNotFoundError, f, bp)
          else (case GetPage sl bp dk f pno of
                  None \<Rightarrow> None
                | Some (Inl e, bp1) \<Rightarrow> Some (Some e, f, bp1)
                | Some (Inr pg, bp1) \<Rightarrow>
                    (case page_deleteTuple (setDirty pg True) (heapFileRid pno slot) of
                       None \<Rightarrow> None
                     | Some (Some e, hp) \<Rightarrow>
                         Some (Some e, f, bp1\<lparr>pages := fmupd (pageKey f pno) hp (pages bp1)\<rparr>)
                     | Some (None, hp) \<Rightarrow>
                         Some (None,
                           (if pno < lastEmptyPage f then f\<lparr>lastEmptyPage := pno\<rparr> else f),
                           bp1\<lparr>pages := fmupd (pageKey f pno) hp (pages bp1)\<rparr>))))"

section \<open>Insert and delete operators\<close>

text \<open>
  A child operator, as the insert and delete operators use it: \<open>Iterator\<close> fails with an
  error, or gives an iterator whose pulls return the listed results in order (a tuple, or
  an error) and \<open>nil\<close> after the last.
\<close>

type_synonym Operator = "GoDBError + (GoDBError + Tuple) list"

definition countTuple :: "64 word \<Rightarrow> Tuple" where
  "countTuple n = \<lparr>Desc = [\<lparr>Fname = ''count'', TableQualifier = [], Ftype = IntType\<rparr>],
     Fields = [IntField n], Rid = None\<rparr>"

text \<open>
  The loop of \<open>InsertOp.Iterator\<close> and \<open>DeleteOp.Iterator\<close> over the child's tuples.
  \<open>fileOp\<close> is the method of the \<open>DBFile\<close> interface that the operator calls,
  \<open>insertTuple\<close> or \<open>deleteTuple\<close>, on the state \<open>w\<close> of the file; \<open>cnt\<close> is the
  variable \<open>count\<close>, an \<open>int64\<close>.
\<close>

fun drainInto :: "(Tuple \<Rightarrow> 'w \<Rightarrow> (GoDBError option \<times> 'w) option) \<Rightarrow> (GoDBError + Tuple) list
    \<Rightarrow> 'w \<Rightarrow> 64 word \<Rightarrow> ((GoDBError + 64 word) \<times> 'w) option" where
  "drainInto fileOp [] w cnt = Some (Inr cnt, w)"
| "drainInto fileOp (Inl e # rest) w cnt = Some (Inl e, w)"
| "drainInto fileOp (Inr tuple # rest) w cnt =
     (case fileOp tuple w of
        None \<Rightarrow> None
      | Some (Some e, w') \<Rightarrow> Some (Inl e, w')
      | Some (None, w') \<Rightarrow> drainInto fileOp rest w' (cnt + 1))"

text \<open>
  One pull of the iterator of an \<open>InsertOp\<close>. The state is the field \<open>completed\<close> of the
  operator and the state of the file. The result is an error, a tuple, or \<open>nil\<close> (\<open>Inr
  None\<close>, the end of the stream).
\<close>

definition InsertOp_pull :: "(Tuple \<Rightarrow> 'w \<Rightarrow> (GoDBError option \<times> 'w) option) \<Rightarrow> Operator
    \<Rightarrow> bool \<times> 'w \<Rightarrow> ((GoDBError + Tuple option) \<times> bool \<times> 'w) option" where
  "InsertOp_pull insertTuple_of_file op st =
     (case st of (completed, w) \<Rightarrow>
        if \<not> completed then
          (case op of
             Inl e \<Rightarrow> Some (Inl e, completed, w)
           | Inr results \<Rightarrow>
               (case drainInto insertTuple_of_file results w 0 of
                  None \<Rightarrow> None
                | Some (Inl e, w') \<Rightarrow> Some (Inl e, completed, w')
                | Some (Inr cnt, w') \<Rightarrow> Some (Inr (Some (countTuple cnt)), True, w')))
        else Some (Inr (Some (countTuple 0)), completed, w))"

text \<open>One pull of the iterator of a \<open>DeleteOp\<close>, which has the same body.\<close>

definition DeleteOp_pull :: "(Tuple \<Rightarrow> 'w \<Rightarrow> (GoDBError option \<times> 'w) option) \<Rightarrow> Operator
    \<Rightarrow> bool \<times> 'w \<Rightarrow> ((GoDBError + Tuple option) \<times> bool \<times> 'w) option" where
  "DeleteOp_pull deleteTuple_of_file op st =
     (case st of (completed, w) \<Rightarrow>
        if \<not> completed then
          (case op of
             Inl e \<Rightarrow> Some (Inl e, completed, w)
           | Inr results \<Rightarrow>
               (case drainInto deleteTuple_of_file results w 0 of
                  None \<Rightarrow> None
                | Some (Inl e, w') \<Rightarrow> Some (Inl e, completed, w')
                | Some (Inr cnt, w') \<Rightarrow> Some (Inr (Some (countTuple cnt)), True, w')))
        else Some (Inr (Some (countTuple 0)), completed, w))"

text \<open>The two methods of a heap file, on the state of the file, the pool and the disk.\<close>

definition heapInsert :: "nat \<Rightarrow> Tuple \<Rightarrow> HeapFile \<times> BufferPool \<times> disk
    \<Rightarrow> (GoDBError option \<times> HeapFile \<times> BufferPool \<times> disk) option" where
  "heapInsert sl t w = (case w of (f, bp, dk) \<Rightarrow> insertTuple sl f bp dk t)"

definition heapDelete :: "nat \<Rightarrow> Tuple \<Rightarrow> HeapFile \<times> BufferPool \<times> disk
    \<Rightarrow> (GoDBError option \<times> HeapFile \<times> BufferPool \<times> disk) option" where
  "heapDelete sl t w =
     (case w of (f, bp, dk) \<Rightarrow>
        (case deleteTuple sl f bp dk t of
           None \<Rightarrow> None
         | Some (e, f', bp') \<Rightarrow> Some (e, f', bp', dk)))"

section \<open>Order by\<close>

datatype orderByState = OrderedLessThan | OrderedEqual | OrderedGreaterThan

text \<open>
  The struct \<open>multiSorter\<close>. The type \<open>Expr\<close> and \<open>Tuple.compareField\<close> are not under
  src/: an expression is a value of any type \<open>'e\<close>, and \<open>compareField\<close> is the parameter
  \<open>cmpf\<close> of \<open>Less\<close>, called with the receiver, the other tuple and the expression; the
  error it returns beside the ordering is dropped by \<open>Less\<close>.
\<close>

record 'e multiSorter =
  data :: "Tuple list"
  orderBy :: "'e list"
  ascending :: "bool list"

text \<open>
  \<open>multiSorter.Less\<close>: the loop over \<open>k\<close>, and the statements after it, which read
  \<open>ms.ascending[k]\<close> and \<open>ms.orderBy[k]\<close> with the \<open>k\<close> the loop ended on. An index out
  of range panics.
\<close>

function lessLoop :: "(Tuple \<Rightarrow> Tuple \<Rightarrow> 'e \<Rightarrow> orderByState) \<Rightarrow> 'e multiSorter \<Rightarrow> Tuple \<Rightarrow> Tuple
    \<Rightarrow> nat \<Rightarrow> bool option" where
  "lessLoop cmpf ms p q k =
     (if k < length (orderBy ms) then
        (if k \<ge> length (ascending ms) then None
         else (case (if ascending ms ! k then cmpf p q (orderBy ms ! k)
                     else cmpf q p (orderBy ms ! k)) of
                 OrderedLessThan \<Rightarrow> Some True
               | OrderedGreaterThan \<Rightarrow> Some False
               | OrderedEqual \<Rightarrow> lessLoop cmpf ms p q (k + 1)))
      else
        (if k \<ge> length (ascending ms) then None
         else if k \<ge> length (orderBy ms) then None
         else Some ((if ascending ms ! k then cmpf p q (orderBy ms ! k)
                     else cmpf q p (orderBy ms ! k)) = OrderedLessThan)))"
  by pat_completeness auto
termination
  by (relation "measure (\<lambda>(cmpf, ms, p, q, k). length (orderBy ms) - k)") auto

definition Less :: "(Tuple \<Rightarrow> Tuple \<Rightarrow> 'e \<Rightarrow> orderByState) \<Rightarrow> 'e multiSorter \<Rightarrow> nat \<Rightarrow> nat
    \<Rightarrow> bool option" where
  "Less cmpf ms i j =
     (if i \<ge> length (data ms) \<or> j \<ge> length (data ms) then None
      else lessLoop cmpf ms (data ms ! i) (data ms ! j) 0)"

definition Swap :: "'e multiSorter \<Rightarrow> nat \<Rightarrow> nat \<Rightarrow> 'e multiSorter option" where
  "Swap ms i j =
     (if i \<ge> length (data ms) \<or> j \<ge> length (data ms) then None
      else Some (ms\<lparr>data := (data ms)[i := data ms ! j, j := data ms ! i]\<rparr>))"

text \<open>The loop of \<open>OrderBy.Iterator\<close> that reads the child into the slice \<open>sorted\<close>, here
  \<open>buf\<close>.\<close>

fun drainChild :: "(GoDBError + Tuple) list \<Rightarrow> Tuple list \<Rightarrow> GoDBError + Tuple list" where
  "drainChild [] buf = Inr buf"
| "drainChild (Inl e # rest) buf = Inl e"
| "drainChild (Inr tuple # rest) buf = drainChild rest (buf @ [tuple])"

text \<open>
  \<open>OrderBy.Iterator\<close>. \<open>sort.Sort\<close> is the library's: it is the parameter \<open>libSort\<close>,
  which works on a \<open>multiSorter\<close> through \<open>Less\<close> and \<open>Swap\<close> and panics when they do. The
  method returns an iterator, here the slice it will yield tuple by tuple, and an error;
  a caller that sees the error does not use the iterator.
\<close>

definition OrderBy_Iterator ::
  "('e multiSorter \<Rightarrow> 'e multiSorter option) \<Rightarrow> 'e list \<Rightarrow> bool list \<Rightarrow> Operator
    \<Rightarrow> (Tuple list option \<times> GoDBError option) option" where
  "OrderBy_Iterator libSort keys asc child =
     (case child of
        Inl e \<Rightarrow> Some (None, Some e)
      | Inr results \<Rightarrow>
          (case drainChild results [] of
             Inl e \<Rightarrow> Some (None, Some e)
           | Inr buf \<Rightarrow>
               (case libSort \<lparr>data = buf, orderBy = keys, ascending = asc\<rparr> of
                  None \<Rightarrow> None
                | Some ms \<Rightarrow>
                    Some (Some (data ms), Some (Errorf ''order_by_op.Iterator not implemented'')))))"

section \<open>The log file\<close>

text \<open>
  An open \<open>os.File\<close>: the name of the file, whose bytes the disk holds, the position of
  its next read or write, and whether it has been closed. A call on a closed file fails,
  \<open>Seek\<close> refuses a position before the start of the file, and no other I/O error is
  modelled. \<open>Write\<close> puts the bytes at the position, as \<open>WriteAt\<close> does at its offset.
  \<open>readFull\<close> is the \<open>io.ReadFull\<close> with which \<open>binary.Read\<close> fills the buffer of a
  value of \<open>n\<close> bytes: \<open>io.EOF\<close> when no byte is left, \<open>io.ErrUnexpectedEOF\<close> when the
  file ends before the buffer is full.
\<close>

record osFile =
  fileName :: string
  position :: nat
  closed :: bool

datatype whence = SeekStart | SeekCurrent | SeekEnd

definition file_Write :: "osFile \<Rightarrow> disk \<Rightarrow> byte list \<Rightarrow> GoDBError option \<times> osFile \<times> disk" where
  "file_Write fl dk bs =
     (if closed fl then (Some (IOError ''file already closed''), fl, dk)
      else (None, fl\<lparr>position := position fl + length bs\<rparr>,
            dk(fileName fl := writeAt (dk (fileName fl)) (position fl) bs)))"

definition file_Sync :: "osFile \<Rightarrow> GoDBError option" where
  "file_Sync fl = (if closed fl then Some (IOError ''file already closed'') else None)"

definition file_Seek :: "osFile \<Rightarrow> disk \<Rightarrow> int \<Rightarrow> whence \<Rightarrow> GoDBError + osFile" where
  "file_Seek fl dk off wh =
     (if closed fl then Inl (IOError ''file already closed'')
      else let new = (case wh of
                        SeekStart \<Rightarrow> off
                      | SeekCurrent \<Rightarrow> int (position fl) + off
                      | SeekEnd \<Rightarrow> int (length (dk (fileName fl))) + off)
           in if new < 0 then Inl (IOError ''invalid argument'')
              else Inr (fl\<lparr>position := nat new\<rparr>))"

definition readFull :: "osFile \<Rightarrow> disk \<Rightarrow> nat \<Rightarrow> (GoDBError + byte list) \<times> osFile" where
  "readFull fl dk n =
     (if closed fl then (Inl (IOError ''file already closed''), fl)
      else if n = 0 then (Inr [], fl)
      else let rest = drop (position fl) (dk (fileName fl))
           in if rest = [] then (Inl (IOError ''EOF''), fl)
              else if length rest < n
                then (Inl (IOError ''unexpected EOF''), fl\<lparr>position := position fl + length rest\<rparr>)
              else (Inr (take n rest), fl\<lparr>position := position fl + n\<rparr>))"

text \<open>
  The type \<open>Catalog\<close> is not under src/. The log file calls two of its methods, which
  are the two fields of the record, any functions: \<open>GetTableInfoId\<close> gives the heap file
  of the table with an id, and \<open>GetTableInfoDBFile\<close> the id of the table of a heap file,
  which is given by the name of its backing file as in a page; or they give an error.
\<close>

record Catalog =
  GetTableInfoId :: "int \<Rightarrow> GoDBError + HeapFile"
  GetTableInfoDBFile :: "string \<Rightarrow> GoDBError + int"

text \<open>
  Modelled from the spec: the type \<open>TransactionID\<close> is not under src/; the spec has it
  an identifier of 32 bits. It is an \<open>int\<close> here, and the conversions to and from
  \<open>int32\<close> that the log file makes are written out: an identifier of 32 bits is read as
  it was written.
\<close>

type_synonym TransactionID = int

text \<open>
  The struct \<open>LogFile\<close>: \<open>file\<close>, here \<open>lfile\<close>, is the open file, \<open>buf\<close> holds the bytes
  written and not yet forced, and \<open>offset\<close> is an \<open>int64\<close>. The field \<open>bufferPool\<close> is
  read by no method of the log file and is left out. A \<open>LogRecordType\<close> is an \<open>int8\<close>.
\<close>

record LogFile =
  lfile :: osFile
  buf :: "byte list"
  offset :: "64 word"
  catalog :: Catalog

type_synonym LogRecordType = "8 word"

definition AbortRecord :: LogRecordType where
  "AbortRecord = 0"

definition CommitRecord :: LogRecordType where
  "CommitRecord = 1"

definition UpdateRecord :: LogRecordType where
  "UpdateRecord = 2"

definition BeginRecord :: LogRecordType where
  "BeginRecord = 3"

text \<open>
  \<open>NewLogFile\<close> opens the file with \<open>O_CREATE\<close> and \<open>O_RDWR\<close>; a pool or a catalog that
  is \<open>nil\<close>, and a file that cannot be opened, are not modelled.
\<close>

definition NewLogFile :: "string \<Rightarrow> Catalog \<Rightarrow> LogFile" where
  "NewLogFile name c =
     \<lparr>lfile = \<lparr>fileName = name, position = 0, closed = False\<rparr>, buf = [], offset = 0, catalog = c\<rparr>"

text \<open>
  \<open>LogFile.write\<close> is given the bytes that \<open>binary.Write\<close> makes of the value, in
  \<open>LittleEndian\<close> order; \<open>binary.Size\<close> is their number.
\<close>

definition LogFile_write :: "LogFile \<Rightarrow> byte list \<Rightarrow> LogFile" where
  "LogFile_write w bs = w\<lparr>buf := buf w @ bs, offset := offset w + of_nat (length bs)\<rparr>"

text \<open>
  \<open>LogFile.Force\<close>. The position that it asks of the file after the write is only
  printed.
\<close>

definition Force :: "LogFile \<Rightarrow> disk \<Rightarrow> GoDBError option \<times> LogFile \<times> disk" where
  "Force w dk =
     (if buf w = [] then (None, w, dk)
      else case file_Write (lfile w) dk (buf w) of
             (Some e, fl, dk1) \<Rightarrow> (Some e, w\<lparr>lfile := fl\<rparr>, dk1)
           | (None, fl, dk1) \<Rightarrow> (file_Sync fl, w\<lparr>lfile := fl, buf := []\<rparr>, dk1))"

text \<open>
  \<open>LogFile.seek\<close>. An error built with \<open>fmt.Errorf\<close> is the text of its format, here and
  below; the values that it formats are left out.
\<close>

definition LogFile_seek :: "LogFile \<Rightarrow> disk \<Rightarrow> int \<Rightarrow> whence \<Rightarrow> GoDBError option \<times> LogFile \<times> disk" where
  "LogFile_seek f dk off wh =
     (case Force f dk of
        (Some e, f1, dk1) \<Rightarrow> (Some e, f1, dk1)
      | (None, f1, dk1) \<Rightarrow>
          (case file_Seek (lfile f1) dk1 off wh of
             Inl e \<Rightarrow> (Some (Errorf ''invalid seek (%d, %d): %w''), f1, dk1)
           | Inr fl \<Rightarrow> (None, f1\<lparr>lfile := fl, offset := of_nat (position fl)\<rparr>, dk1)))"

text \<open>
  \<open>LogFile.read\<close> of a value of \<open>n\<close> bytes: it returns the bytes, which the caller reads
  as a value in \<open>LittleEndian\<close> order.
\<close>

definition LogFile_read :: "LogFile \<Rightarrow> disk \<Rightarrow> nat \<Rightarrow> (GoDBError + byte list) \<times> LogFile \<times> disk" where
  "LogFile_read f dk n =
     (case Force f dk of
        (Some e, f1, dk1) \<Rightarrow> (Inl e, f1, dk1)
      | (None, f1, dk1) \<Rightarrow>
          (case readFull (lfile f1) dk1 n of
             (Inl e, fl) \<Rightarrow> (Inl e, f1\<lparr>lfile := fl\<rparr>, dk1)
           | (Inr bs, fl) \<Rightarrow> (Inr bs, f1\<lparr>lfile := fl, offset := offset f1 + of_nat n\<rparr>, dk1)))"

definition readTransactionID :: "LogFile \<Rightarrow> disk \<Rightarrow> (GoDBError + TransactionID) \<times> LogFile \<times> disk" where
  "readTransactionID w dk =
     (case LogFile_read w dk 4 of
        (Inl e, w1, dk1) \<Rightarrow> (Inl e, w1, dk1)
      | (Inr bs, w1, dk1) \<Rightarrow> (Inr (sint (le_word bs :: 32 word)), w1, dk1))"

definition writeHeader :: "LogFile \<Rightarrow> LogRecordType \<Rightarrow> TransactionID \<Rightarrow> LogFile" where
  "writeHeader w typ tid =
     LogFile_write (LogFile_write w (le_bytes 1 typ)) (le_bytes 4 (word_of_int tid :: 32 word))"

definition writeFooter :: "LogFile \<Rightarrow> 64 word \<Rightarrow> LogFile" where
  "writeFooter w off = LogFile_write w (le_bytes 8 off)"

text \<open>
  \<open>LogFile.readPage\<close>. The page it makes belongs to the heap file that the catalog has
  for the file id; \<open>newHeapPage\<close> returns no error.
\<close>

definition LogFile_readPage :: "nat \<Rightarrow> LogFile \<Rightarrow> disk
    \<Rightarrow> ((GoDBError + heapPage) \<times> LogFile \<times> disk) option" where
  "LogFile_readPage sl w dk =
     (case LogFile_read w dk 4 of
        (Inl e, w1, dk1) \<Rightarrow> Some (Inl e, w1, dk1)
      | (Inr fid, w1, dk1) \<Rightarrow>
          (case LogFile_read w1 dk1 4 of
             (Inl e, w2, dk2) \<Rightarrow> Some (Inl e, w2, dk2)
           | (Inr pno, w2, dk2) \<Rightarrow>
               (case GetTableInfoId (catalog w2) (sint (le_word fid :: 32 word)) of
                  Inl e \<Rightarrow> Some (Inl e, w2, dk2)
                | Inr f \<Rightarrow>
                    (case newHeapPage sl (td f) (sint (le_word pno :: 32 word)) (backingFile f) of
                       None \<Rightarrow> None
                     | Some pg \<Rightarrow>
                         (case LogFile_read w2 dk2 (nat PageSize) of
                            (Inl e, w3, dk3) \<Rightarrow> Some (Inl e, w3, dk3)
                          | (Inr bs, w3, dk3) \<Rightarrow>
                              (case initFromBuffer sl pg bs of
                                 None \<Rightarrow> None
                               | Some (Inl e) \<Rightarrow> Some (Inl e, w3, dk3)
                               | Some (Inr pg') \<Rightarrow> Some (Inr pg', w3, dk3)))))))"

text \<open>\<open>LogFile.writePage\<close>, of a heap page.\<close>

definition LogFile_writePage :: "nat \<Rightarrow> LogFile \<Rightarrow> heapPage \<Rightarrow> GoDBError option \<times> LogFile" where
  "LogFile_writePage sl w p =
     (case GetTableInfoDBFile (catalog w) (hfile p) of
        Inl e \<Rightarrow> (Some e, w)
      | Inr fid \<Rightarrow>
          (let w1 = LogFile_write w (le_bytes 4 (word_of_int fid :: 32 word));
               w2 = LogFile_write w1 (le_bytes 4 (word_of_int (pageNo p) :: 32 word))
           in case toBuffer sl p of
                Inl e \<Rightarrow> (Some e, w2)
              | Inr bs \<Rightarrow> (None, LogFile_write w2 bs)))"

definition LogAbort :: "LogFile \<Rightarrow> TransactionID \<Rightarrow> LogFile" where
  "LogAbort w tid =
     (let off = offset w in LogFile_write (writeHeader w AbortRecord tid) (le_bytes 8 off))"

definition LogCommit :: "LogFile \<Rightarrow> TransactionID \<Rightarrow> LogFile" where
  "LogCommit w tid =
     (let off = offset w in LogFile_write (writeHeader w CommitRecord tid) (le_bytes 8 off))"

text \<open>
  \<open>LogFile.LogUpdate\<close>; a page is \<open>None\<close> when it is \<open>nil\<close>. The errors of the two calls
  of \<open>writePage\<close> are dropped by the source.
\<close>

definition LogUpdate :: "nat \<Rightarrow> LogFile \<Rightarrow> TransactionID \<Rightarrow> heapPage option \<Rightarrow> heapPage option
    \<Rightarrow> GoDBError option \<times> LogFile" where
  "LogUpdate sl w tid before after =
     (case (before, after) of
        (Some b, Some a) \<Rightarrow>
          (let off = offset w;
               w1 = writeHeader w UpdateRecord tid;
               w2 = snd (LogFile_writePage sl w1 b);
               w3 = snd (LogFile_writePage sl w2 a)
           in (None, LogFile_write w3 (le_bytes 8 off)))
      | _ \<Rightarrow> (Some (Errorf ''before and after images must be non-nil''), w))"

definition LogBegin :: "LogFile \<Rightarrow> TransactionID \<Rightarrow> LogFile" where
  "LogBegin w tid = (let off = offset w in writeFooter (writeHeader w BeginRecord tid) off)"

text \<open>
  The interface \<open>LogRecord\<close> with its two implementations: a \<open>GenericLogRecord\<close> has an
  offset, a type and a transaction, an \<open>UpdateLogRecord\<close> has a before and an after page
  as well.
\<close>

datatype LogRecord =
    GenericLogRecord "64 word" LogRecordType TransactionID
  | UpdateLogRecord "64 word" LogRecordType TransactionID heapPage heapPage

fun Offset :: "LogRecord \<Rightarrow> 64 word" where
  "Offset (GenericLogRecord off typ tid) = off"
| "Offset (UpdateLogRecord off typ tid before after) = off"

fun Type :: "LogRecord \<Rightarrow> LogRecordType" where
  "Type (GenericLogRecord off typ tid) = typ"
| "Type (UpdateLogRecord off typ tid before after) = typ"

fun Tid :: "LogRecord \<Rightarrow> TransactionID" where
  "Tid (GenericLogRecord off typ tid) = tid"
| "Tid (UpdateLogRecord off typ tid before after) = tid"

definition partial :: "string \<Rightarrow> GoDBError" where
  "partial msg = Errorf (''failed to read '' @ msg @ ''. partial record at offset %d: %v'')"

text \<open>
  The end of the function that \<open>ForwardIterator\<close> returns: it reads the offset stored
  after the record and compares it with the offset at which the record began.
\<close>

definition readRecordOffset :: "LogRecord \<Rightarrow> LogFile \<Rightarrow> disk
    \<Rightarrow> (GoDBError + LogRecord option) \<times> LogFile \<times> disk" where
  "readRecordOffset ret f dk =
     (case LogFile_read f dk 8 of
        (Inl e, f1, dk1) \<Rightarrow> (Inl (partial ''offset''), f1, dk1)
      | (Inr bs, f1, dk1) \<Rightarrow>
          if (le_word bs :: 64 word) \<noteq> Offset ret then (Inl (partial ''offset''), f1, dk1)
          else (Inr (Some ret), f1, dk1))"

text \<open>
  One call of the function that \<open>ForwardIterator\<close> returns: an error, a record, or \<open>nil\<close>
  at the end of the file. Its state is the log file.
\<close>

definition ForwardIterator_pull :: "nat \<Rightarrow> LogFile \<Rightarrow> disk
    \<Rightarrow> ((GoDBError + LogRecord option) \<times> LogFile \<times> disk) option" where
  "ForwardIterator_pull sl f dk =
     (let off = offset f
      in case LogFile_read f dk 1 of
           (Inl e, f1, dk1) \<Rightarrow>
             if e = IOError ''EOF'' then Some (Inr None, f1, dk1)
             else Some (Inl (partial ''record type''), f1, dk1)
         | (Inr typ, f1, dk1) \<Rightarrow>
             (case readTransactionID f1 dk1 of
                (Inl e, f2, dk2) \<Rightarrow> Some (Inl (partial ''transaction id''), f2, dk2)
              | (Inr tid, f2, dk2) \<Rightarrow>
                  if (le_word typ :: 8 word) = UpdateRecord then
                    (case LogFile_readPage sl f2 dk2 of
                       None \<Rightarrow> None
                     | Some (Inl e, f3, dk3) \<Rightarrow> Some (Inl (partial ''before page''), f3, dk3)
                     | Some (Inr before, f3, dk3) \<Rightarrow>
                         (case LogFile_readPage sl f3 dk3 of
                            None \<Rightarrow> None
                          | Some (Inl e, f4, dk4) \<Rightarrow> Some (Inl (partial ''after page''), f4, dk4)
                          | Some (Inr after, f4, dk4) \<Rightarrow>
                              Some (readRecordOffset
                                (UpdateLogRecord off (le_word typ) tid before after) f4 dk4)))
                  else Some (readRecordOffset (GenericLogRecord off (le_word typ) tid) f2 dk2)))"

text \<open>
  \<open>ReverseIterator\<close> seeks to the end of the file; one call of the function that it
  returns follows the offset stored before the position of the file.
\<close>

definition ReverseIterator :: "LogFile \<Rightarrow> disk \<Rightarrow> GoDBError option \<times> LogFile \<times> disk" where
  "ReverseIterator f dk = LogFile_seek f dk 0 SeekEnd"

definition ReverseIterator_pull :: "nat \<Rightarrow> LogFile \<Rightarrow> disk
    \<Rightarrow> ((GoDBError + LogRecord option) \<times> LogFile \<times> disk) option" where
  "ReverseIterator_pull sl f dk =
     (if sint (offset f) < 8 then Some (Inr None, f, dk)
      else case LogFile_seek f dk (- 8) SeekCurrent of
             (Some e, f1, dk1) \<Rightarrow> Some (Inl e, f1, dk1)
           | (None, f1, dk1) \<Rightarrow>
               (case LogFile_read f1 dk1 8 of
                  (Inl e, f2, dk2) \<Rightarrow> Some (Inl e, f2, dk2)
                | (Inr bs, f2, dk2) \<Rightarrow>
                    (case LogFile_seek f2 dk2 (sint (le_word bs :: 64 word)) SeekStart of
                       (Some e, f3, dk3) \<Rightarrow> Some (Inl e, f3, dk3)
                     | (None, f3, dk3) \<Rightarrow>
                         (case ForwardIterator_pull sl f3 dk3 of
                            None \<Rightarrow> None
                          | Some (Inl e, f4, dk4) \<Rightarrow> Some (Inl e, f4, dk4)
                          | Some (Inr record, f4, dk4) \<Rightarrow>
                              (case LogFile_seek f4 dk4 (sint (le_word bs :: 64 word)) SeekStart of
                                 (Some e, f5, dk5) \<Rightarrow> Some (Inl e, f5, dk5)
                               | (None, f5, dk5) \<Rightarrow> Some (Inr record, f5, dk5))))))"

section \<open>Recovery\<close>

text \<open>
  The body of the first loop of \<open>BufferPool.Recover\<close>, the \<open>switch\<close> on the type of the
  record. \<open>losers\<close> is a Go map from transactions to offsets, kept as a list of pairs with
  one pair for a key. A Go \<open>switch\<close> does not fall through: the case \<open>AbortRecord\<close> has no
  statement, so it does nothing, and so does a type that has no case. The body returns an
  error, or goes on with a pool, a disk and a map; a type assertion that fails panics.
\<close>

definition redoBody :: "nat \<Rightarrow> BufferPool \<Rightarrow> disk \<Rightarrow> (TransactionID \<times> 64 word) list \<Rightarrow> LogRecord
    \<Rightarrow> (GoDBError option \<times> BufferPool \<times> disk \<times> (TransactionID \<times> 64 word) list) option" where
  "redoBody sl bp dk losers record =
     (if Type record = BeginRecord then
        Some (None, bp, dk, AList.update (Tid record) (Offset record) losers)
      else if Type record = AbortRecord then Some (None, bp, dk, losers)
      else if Type record = CommitRecord then
        Some (None, bp, dk, AList.delete (Tid record) losers)
      else if Type record = UpdateRecord then
        (case record of
           GenericLogRecord off typ tid \<Rightarrow> None
         | UpdateLogRecord off typ tid before after \<Rightarrow>
             (let bp1 = bp\<lparr>pages := fmdrop (hfile after, pageNo after) (pages bp)\<rparr>
              in case flushPage sl (hfile after) dk after of
                   (Some e, dk1) \<Rightarrow> Some (Some e, bp1, dk1, losers)
                 | (None, dk1) \<Rightarrow> Some (None, bp1, dk1, losers)))
      else Some (None, bp, dk, losers))"

text \<open>
  The first loop, from the call of the iterator on: it ends with the error of the
  iterator or of the body (\<open>Inl\<close>), or at the end of the file with the map \<open>losers\<close>.
  Every round reads at least one byte of the file, and the loop ends for every file: its
  termination is proved below, by the measure \<open>remaining\<close>.
\<close>

function redoLoop :: "nat \<Rightarrow> BufferPool \<Rightarrow> LogFile \<Rightarrow> disk \<Rightarrow> (TransactionID \<times> 64 word) list
    \<Rightarrow> ((GoDBError + (TransactionID \<times> 64 word) list) \<times> BufferPool \<times> LogFile \<times> disk) option" where
  "redoLoop sl bp f dk losers =
     (case ForwardIterator_pull sl f dk of
        None \<Rightarrow> None
      | Some (Inl e, f1, dk1) \<Rightarrow> Some (Inl e, bp, f1, dk1)
      | Some (Inr None, f1, dk1) \<Rightarrow> Some (Inr losers, bp, f1, dk1)
      | Some (Inr (Some record), f1, dk1) \<Rightarrow>
          (case redoBody sl bp dk1 losers record of
             None \<Rightarrow> None
           | Some (Some e, bp2, dk2, losers2) \<Rightarrow> Some (Inl e, bp2, f1, dk2)
           | Some (None, bp2, dk2, losers2) \<Rightarrow> redoLoop sl bp2 f1 dk2 losers2))"
  by pat_completeness auto

text \<open>
  The body of the second loop: a record of a transaction that is not in \<open>losers\<close> is
  passed over; for one that is, the \<open>switch\<close> on its type has the cases \<open>UpdateRecord\<close>
  and \<open>BeginRecord\<close>.
\<close>

definition undoBody :: "nat \<Rightarrow> BufferPool \<Rightarrow> LogFile \<Rightarrow> disk \<Rightarrow> (TransactionID \<times> 64 word) list
    \<Rightarrow> LogRecord
    \<Rightarrow> (GoDBError option \<times> BufferPool \<times> LogFile \<times> disk \<times> (TransactionID \<times> 64 word) list) option" where
  "undoBody sl bp f dk losers record =
     (case map_of losers (Tid record) of
        None \<Rightarrow> Some (None, bp, f, dk, losers)
      | Some _ \<Rightarrow>
          if Type record = UpdateRecord then
            (case record of
               GenericLogRecord off typ tid \<Rightarrow> None
             | UpdateLogRecord off typ tid before after \<Rightarrow>
                 (let bp1 = bp\<lparr>pages := fmdrop (hfile before, pageNo before) (pages bp)\<rparr>
                  in case flushPage sl (hfile before) dk before of
                       (Some e, dk1) \<Rightarrow> Some (Some e, bp1, f, dk1, losers)
                     | (None, dk1) \<Rightarrow> Some (None, bp1, f, dk1, losers)))
          else if Type record = BeginRecord then
            (let off = offset f
             in case LogFile_seek f dk 0 SeekEnd of
                  (Some e, f1, dk1) \<Rightarrow> Some (Some e, bp, f1, dk1, losers)
                | (None, f1, dk1) \<Rightarrow>
                    (case Force (LogAbort f1 (Tid record)) dk1 of
                       (Some e, f2, dk2) \<Rightarrow> Some (Some e, bp, f2, dk2, losers)
                     | (None, f2, dk2) \<Rightarrow>
                         (case LogFile_seek f2 dk2 (sint off) SeekStart of
                            (Some e, f3, dk3) \<Rightarrow> Some (Some e, bp, f3, dk3, losers)
                          | (None, f3, dk3) \<Rightarrow>
                              Some (None, bp, f3, dk3, AList.delete (Tid record) losers))))
          else Some (None, bp, f, dk, losers))"

text \<open>
  The second loop, from its condition on; \<open>res\<close> is what the last call of the reverse
  iterator returned. The reverse iterator goes where the offsets stored in the file send
  it, so that nothing bounds the rounds of this loop for every file: \<open>n\<close> bounds the
  number of times the condition is evaluated, and a run that is not over by then is
  \<open>None\<close>, as a panic is. The loop ends with the error that \<open>Recover\<close> returns, or with
  \<open>nil\<close> when \<open>Recover\<close> goes on.
\<close>

fun undoLoop :: "nat \<Rightarrow> nat \<Rightarrow> BufferPool \<Rightarrow> LogFile \<Rightarrow> disk \<Rightarrow> (TransactionID \<times> 64 word) list
    \<Rightarrow> GoDBError + LogRecord option
    \<Rightarrow> (GoDBError option \<times> BufferPool \<times> LogFile \<times> disk) option" where
  "undoLoop 0 sl bp f dk losers res = None"
| "undoLoop (Suc n) sl bp f dk losers res =
     (case res of
        Inl e \<Rightarrow> Some (Some (Errorf ''failed to read from reversed iterator: %w''), bp, f, dk)
      | Inr None \<Rightarrow> Some (None, bp, f, dk)
      | Inr (Some record) \<Rightarrow>
          if losers = [] then Some (None, bp, f, dk)
          else (case undoBody sl bp f dk losers record of
                  None \<Rightarrow> None
                | Some (Some e, bp1, f1, dk1, losers1) \<Rightarrow> Some (Some e, bp1, f1, dk1)
                | Some (None, bp1, f1, dk1, losers1) \<Rightarrow>
                    (case ReverseIterator_pull sl f1 dk1 of
                       None \<Rightarrow> None
                     | Some (res1, f2, dk2) \<Rightarrow> undoLoop n sl bp1 f2 dk2 losers1 res1)))"

text \<open>
  \<open>BufferPool.Recover\<close>, with the bound \<open>n\<close> on the rounds of its second loop: the error
  it returns, and the pool, the log file and the disk it leaves. The log file of the pool
  is the one that \<open>Recover\<close> is given.
\<close>

definition Recover :: "nat \<Rightarrow> nat \<Rightarrow> BufferPool \<Rightarrow> LogFile \<Rightarrow> disk
    \<Rightarrow> (GoDBError option \<times> BufferPool \<times> LogFile \<times> disk) option" where
  "Recover n sl bp logFile dk =
     (case LogFile_seek logFile dk 0 SeekStart of
        (Some e, f1, dk1) \<Rightarrow>
          Some (Some (Errorf ''failed to seek to start of file: %w''), bp, f1, dk1)
      | (None, f1, dk1) \<Rightarrow>
          (case redoLoop sl bp f1 dk1 [] of
             None \<Rightarrow> None
           | Some (Inl e, bp2, f2, dk2) \<Rightarrow> Some (Some e, bp2, f2, dk2)
           | Some (Inr losers, bp2, f2, dk2) \<Rightarrow>
               (case ReverseIterator f2 dk2 of
                  (Some e, f3, dk3) \<Rightarrow>
                    Some (Some (Errorf ''failed to create rev iterator: %w''), bp2, f3, dk3)
                | (None, f3, dk3) \<Rightarrow>
                    (case ReverseIterator_pull sl f3 dk3 of
                       None \<Rightarrow> None
                     | Some (res, f4, dk4) \<Rightarrow>
                         (case undoLoop n sl bp2 f4 dk4 losers res of
                            None \<Rightarrow> None
                          | Some (Some e, bp5, f5, dk5) \<Rightarrow> Some (Some e, bp5, f5, dk5)
                          | Some (None, bp5, f5, dk5) \<Rightarrow>
                              (case LogFile_seek f5 dk5 0 SeekEnd of
                                 (e, f6, dk6) \<Rightarrow> Some (e, bp5, f6, dk6)))))))"

text \<open>
  What is left to read of a log file: the measure by which the first loop of \<open>Recover\<close>
  ends. That loop writes pages to the disk, and into the log file itself when a table
  has the log file as its backing file; the number of such a page is an \<open>int32\<close>, so that
  the page ends before byte \<open>2 ^ 43\<close>, which the measure takes for the least length.
\<close>

definition remaining :: "LogFile \<Rightarrow> disk \<Rightarrow> nat" where
  "remaining f dk = max (length (dk (fileName (lfile f)))) (2 ^ 43) - position (lfile f)"

text \<open>
  A log file with nothing to force, at position \<open>p\<close>; and the bytes of the records, as
  \<open>writeHeader\<close>, \<open>writePage\<close> and the write of the offset make them.
\<close>

definition logAt :: "LogFile \<Rightarrow> nat \<Rightarrow> LogFile" where
  "logAt f p = f\<lparr>lfile := (lfile f)\<lparr>position := p\<rparr>, buf := [], offset := of_nat p\<rparr>"

definition recordBytes :: "LogRecordType \<Rightarrow> TransactionID \<Rightarrow> 64 word \<Rightarrow> byte list" where
  "recordBytes typ tid off = le_bytes 1 typ @ le_bytes 4 (word_of_int tid :: 32 word) @ le_bytes 8 off"

definition pageBytes :: "int \<Rightarrow> int \<Rightarrow> byte list \<Rightarrow> byte list" where
  "pageBytes fid pno img =
     le_bytes 4 (word_of_int fid :: 32 word) @ le_bytes 4 (word_of_int pno :: 32 word) @ img"

definition updateBytes :: "TransactionID \<Rightarrow> 64 word \<Rightarrow> byte list \<Rightarrow> byte list \<Rightarrow> byte list" where
  "updateBytes tid off before after =
     le_bytes 1 UpdateRecord @ le_bytes 4 (word_of_int tid :: 32 word) @ before @ after @ le_bytes 8 off"

section \<open>Well-formed pages\<close>

text \<open>
  The invariants that the spec gives for values, tuples and heap pages. A String value
  fits in \<open>StringLength\<close> bytes and does not end in a zero byte (on the wire it is padded
  with zeros, which a reader drops); the fields of a tuple match its page's descriptor in
  number and kind; \<open>numUsed\<close> counts the occupied slots, there are \<open>numSlots\<close> slots, and
  \<open>numSlots\<close> is \<open>(PageSize - 8) / bytesPerTuple\<close>.
\<close>

definition validValue :: "nat \<Rightarrow> FieldType \<Rightarrow> DBValue \<Rightarrow> bool" where
  "validValue sl ft v =
     (case v of
        IntField x \<Rightarrow> Ftype ft = IntType
      | StringField s \<Rightarrow> Ftype ft = StringType \<and> length s \<le> sl \<and> (s = [] \<or> last s \<noteq> 0))"

definition validTuple :: "nat \<Rightarrow> TupleDesc \<Rightarrow> Tuple \<Rightarrow> bool" where
  "validTuple sl d t = list_all2 (validValue sl) d (Fields t)"

definition occupied :: "Tuple option list \<Rightarrow> Tuple list" where
  "occupied slots = map the (filter (\<lambda>s. s \<noteq> None) slots)"

definition pageInv :: "nat \<Rightarrow> heapPage \<Rightarrow> bool" where
  "pageInv sl h =
     (sint (numUsed h) = int (length (occupied (tuples h)))
      \<and> 0 \<le> sint (numSlots h)
      \<and> length (tuples h) = nat (sint (numSlots h))
      \<and> sint (numSlots h) = (PageSize - 8) div bytesPerTuple sl (desc h)
      \<and> list_all (validTuple sl (desc h)) (occupied (tuples h)))"

text \<open>
  The slots that reading back fills: the tuples \<open>ts\<close> in order from slot \<open>i\<close> on, each
  with the descriptor of the page and the rid of its new slot.
\<close>

definition reloaded :: "TupleDesc \<Rightarrow> int \<Rightarrow> nat \<Rightarrow> Tuple list \<Rightarrow> Tuple option list" where
  "reloaded d pno i ts =
     map (\<lambda>(j, t). Some \<lparr>Desc = d, Fields = Fields t, Rid = Some (heapFileRid pno (int j))\<rparr>)
       (zip [i..<i + length ts] ts)"

section \<open>Example data\<close>

text \<open>
  A table \<open>t.dat\<close> of one Int column, whose pages have 511 slots: its descriptor, two
  tuples, page 0 with no tuple (dirty, and clean) and with one tuple, and the bytes of the
  page with one tuple.
\<close>

definition ageDesc :: TupleDesc where
  "ageDesc = [\<lparr>Fname = ''age'', TableQualifier = [], Ftype = IntType\<rparr>]"

definition exFile :: HeapFile where
  "exFile = \<lparr>td = ageDesc, numPages = 2, backingFile = ''t.dat'', lastEmptyPage = 0\<rparr>"

definition exTuple :: Tuple where
  "exTuple = \<lparr>Desc = ageDesc, Fields = [IntField 7], Rid = None\<rparr>"

definition exTuple2 :: Tuple where
  "exTuple2 = \<lparr>Desc = ageDesc, Fields = [IntField 9], Rid = None\<rparr>"

definition exDirtyPage :: heapPage where
  "exDirtyPage = \<lparr>desc = ageDesc, numSlots = 511, numUsed = 0, dirty = True,
     tuples = replicate 511 None, pageNo = 0, hfile = ''t.dat''\<rparr>"

definition exCleanPage :: heapPage where
  "exCleanPage = exDirtyPage\<lparr>dirty := False\<rparr>"

definition exOnePage :: heapPage where
  "exOnePage = exCleanPage\<lparr>numUsed := 1,
     tuples := Some (exTuple\<lparr>Rid := Some (heapFileRid 0 0)\<rparr>) # replicate 510 None\<rparr>"

definition exOneImage :: "byte list" where
  "exOneImage = le_bytes 4 (511 :: 32 word) @ le_bytes 4 (1 :: 32 word) @ le_bytes 8 (7 :: 64 word)
     @ replicate 4080 0"

text \<open>
  A table \<open>n.dat\<close> of 511 Int columns, whose tuples take 4088 bytes, so that a page has
  one slot; and a table \<open>w.dat\<close> of 512 Int columns, whose tuples do not fit on a page.
\<close>

definition intColumn :: FieldType where
  "intColumn = \<lparr>Fname = ''c'', TableQualifier = [], Ftype = IntType\<rparr>"

definition oneSlotFile :: HeapFile where
  "oneSlotFile = \<lparr>td = replicate 511 intColumn, numPages = 0, backingFile = ''n.dat'',
     lastEmptyPage = - 1\<rparr>"

definition oneSlotTuple :: "64 word \<Rightarrow> Tuple" where
  "oneSlotTuple x = \<lparr>Desc = replicate 511 intColumn, Fields = replicate 511 (IntField x), Rid = None\<rparr>"

definition oneSlotPage :: "int \<Rightarrow> heapPage" where
  "oneSlotPage pno = \<lparr>desc = replicate 511 intColumn, numSlots = 1, numUsed = 0, dirty = False,
     tuples = [None], pageNo = pno, hfile = ''n.dat''\<rparr>"

definition exFilledPage :: heapPage where
  "exFilledPage = (oneSlotPage 0)\<lparr>
     tuples := [Some ((oneSlotTuple 1)\<lparr>Rid := Some (heapFileRid 0 0)\<rparr>)],
     numUsed := 1, dirty := True\<rparr>"

definition noSlotFile :: HeapFile where
  "noSlotFile = \<lparr>td = replicate 512 intColumn, numPages = 0, backingFile = ''w.dat'',
     lastEmptyPage = - 1\<rparr>"

definition noSlotTuple :: Tuple where
  "noSlotTuple = \<lparr>Desc = replicate 512 intColumn, Fields = replicate 512 (IntField 0), Rid = None\<rparr>"

definition noSlotPage :: heapPage where
  "noSlotPage = \<lparr>desc = replicate 512 intColumn, numSlots = 0, numUsed = 0, dirty = False,
     tuples = [], pageNo = 0, hfile = ''w.dat''\<rparr>"

text \<open>
  A disk with no file; pools that visit their keys in a fixed order: of capacity 1 with
  page 0 of \<open>t.dat\<close> cached, dirty or clean, with no page cached, and of capacity 1
  with the full page 0 of \<open>n.dat\<close> cached.
\<close>

definition emptyDisk :: disk where
  "emptyDisk = (\<lambda>name. [])"

definition exPool :: BufferPool where
  "exPool = \<lparr>pages = fmupd (''t.dat'', 0) exDirtyPage fmempty, maxPages = 1,
     rangeOrder = (\<lambda>n. [(''t.dat'', 0)]), rangeCount = 0\<rparr>"

definition exCleanPool :: BufferPool where
  "exCleanPool = exPool\<lparr>pages := fmupd (''t.dat'', 0) exCleanPage fmempty\<rparr>"

definition exEmptyPool :: "int \<Rightarrow> BufferPool" where
  "exEmptyPool n = \<lparr>pages = fmempty, maxPages = n, rangeOrder = (\<lambda>n. [(''n.dat'', 0)]), rangeCount = 0\<rparr>"

definition exFilledPool :: BufferPool where
  "exFilledPool = (exEmptyPool 1)\<lparr>pages := fmupd (''n.dat'', 0) exFilledPage fmempty\<rparr>"

text \<open>
  A \<open>compareField\<close> for expressions that name a field by its index and compare Int
  values; and a sort by insertion through \<open>Less\<close> and \<open>Swap\<close>, in place of the
  library's.
\<close>

definition exCompareField :: "Tuple \<Rightarrow> Tuple \<Rightarrow> nat \<Rightarrow> orderByState" where
  "exCompareField t t2 k =
     (if k \<ge> length (Fields t) \<or> k \<ge> length (Fields t2) then OrderedEqual
      else case (Fields t ! k, Fields t2 ! k) of
        (IntField a, IntField b) \<Rightarrow>
          if sint a < sint b then OrderedLessThan
          else if sint a = sint b then OrderedEqual else OrderedGreaterThan
      | _ \<Rightarrow> OrderedEqual)"

fun sinkDown :: "('e multiSorter \<Rightarrow> nat \<Rightarrow> nat \<Rightarrow> bool option) \<Rightarrow> 'e multiSorter \<Rightarrow> nat
    \<Rightarrow> 'e multiSorter option" where
  "sinkDown lessf ms 0 = Some ms"
| "sinkDown lessf ms (Suc j) =
     (case lessf ms (Suc j) j of
        None \<Rightarrow> None
      | Some False \<Rightarrow> Some ms
      | Some True \<Rightarrow> (case Swap ms (Suc j) j of None \<Rightarrow> None | Some ms' \<Rightarrow> sinkDown lessf ms' j))"

fun insertionFrom :: "('e multiSorter \<Rightarrow> nat \<Rightarrow> nat \<Rightarrow> bool option) \<Rightarrow> 'e multiSorter \<Rightarrow> nat \<Rightarrow> nat
    \<Rightarrow> 'e multiSorter option" where
  "insertionFrom lessf ms i 0 = Some ms"
| "insertionFrom lessf ms i (Suc n) =
     (case sinkDown lessf ms i of None \<Rightarrow> None | Some ms' \<Rightarrow> insertionFrom lessf ms' (Suc i) n)"

definition exSort :: "(Tuple \<Rightarrow> Tuple \<Rightarrow> 'e \<Rightarrow> orderByState) \<Rightarrow> 'e multiSorter \<Rightarrow> 'e multiSorter option" where
  "exSort cmpf ms = insertionFrom (Less cmpf) ms 1 (length (data ms) - 1)"

text \<open>
  A catalog with the table of \<open>t.dat\<close> under the id 0; the log file \<open>test.log\<close>, newly
  opened; and the bytes of the records of transaction 1: its \<open>Begin\<close> record at offset 0,
  an \<open>Update\<close> record at offset 13 that puts one tuple on the empty page 0 of \<open>t.dat\<close>,
  and a \<open>Commit\<close> and an \<open>Abort\<close> record at any offset.
\<close>

definition exCatalog :: Catalog where
  "exCatalog =
     \<lparr>GetTableInfoId = (\<lambda>fid. if fid = 0 then Inr exFile else Inl (Errorf ''no such table'')),
      GetTableInfoDBFile = (\<lambda>name. if name = ''t.dat'' then Inr 0 else Inl (Errorf ''no such table''))\<rparr>"

definition exLogFile :: LogFile where
  "exLogFile = NewLogFile ''test.log'' exCatalog"

definition exBegin :: "byte list" where
  "exBegin = recordBytes BeginRecord 1 0"

definition exUpdate :: "byte list" where
  "exUpdate = updateBytes 1 13 (pageBytes 0 0 (emptyImage 511)) (pageBytes 0 0 exOneImage)"

definition exCommit :: "64 word \<Rightarrow> byte list" where
  "exCommit off = recordBytes CommitRecord 1 off"

definition exAbort :: "64 word \<Rightarrow> byte list" where
  "exAbort off = recordBytes AbortRecord 1 off"

section \<open>Page capacity\<close>

lemma fieldSize_nonneg: "0 \<le> fieldSize sl ft"
  by (simp add: fieldSize_def split: DBType.split)

lemma bytesPerTuple_nonneg: "0 \<le> bytesPerTuple sl d"
  unfolding bytesPerTuple_def by (induction d) (simp_all add: fieldSize_nonneg)

lemma slots_in_int32:
  assumes "0 < b"
  shows "sint (word_of_int ((PageSize - 8) div b) :: 32 word) = (PageSize - 8) div b"
proof -
  have "0 \<le> (PageSize - 8) div b"
    using assms by (simp add: PageSize_def pos_imp_zdiv_nonneg_iff)
  moreover have "(PageSize - 8) div b \<le> PageSize - 8"
    using assms by (simp add: PageSize_def int_div_le_self)
  ultimately show ?thesis
    by (simp add: PageSize_def sint_sbintrunc' signed_take_bit_int_eq_self)
qed

lemma newHeapPage_Some:
  assumes "bytesPerTuple sl d \<noteq> 0"
  shows "newHeapPage sl d pno f =
    Some \<lparr>desc = d, numSlots = word_of_int ((PageSize - 8) div bytesPerTuple sl d), numUsed = 0,
      dirty = False, tuples = replicate (nat ((PageSize - 8) div bytesPerTuple sl d)) None,
      pageNo = pno, hfile = f\<rparr>"
proof -
  have pos: "0 < bytesPerTuple sl d"
    using assms bytesPerTuple_nonneg [of sl d] by simp
  have "0 \<le> (PageSize - 8) div bytesPerTuple sl d"
    using pos by (simp add: PageSize_def pos_imp_zdiv_nonneg_iff)
  then show ?thesis
    using assms by (simp add: newHeapPage_def Let_def slots_in_int32 [OF pos])
qed

lemma newHeapPage_None: "bytesPerTuple sl d = 0 \<Longrightarrow> newHeapPage sl d pno f = None"
  by (simp add: newHeapPage_def)

text \<open>
  Claim C8. For every schema, a heap page that \<open>newHeapPage\<close> constructs has
  \<open>numSlots\<close> equal to \<open>(PageSize - 8) / bytesPerTuple\<close> rounded down; and it constructs
  a page for every schema of positive width. (For a schema of width zero the quotient is
  not defined and the division panics, \<open>newHeapPage_None\<close>.)
\<close>

theorem newHeapPage_numSlots:
  "(newHeapPage sl d pno f = Some pg
      \<longrightarrow> sint (numSlots pg) = (PageSize - 8) div bytesPerTuple sl d)
   \<and> (bytesPerTuple sl d \<noteq> 0 \<longrightarrow> (\<exists>pg'. newHeapPage sl d pno f = Some pg'))"
proof (intro conjI impI)
  assume c: "newHeapPage sl d pno f = Some pg"
  show "sint (numSlots pg) = (PageSize - 8) div bytesPerTuple sl d"
  proof (cases "bytesPerTuple sl d = 0")
    case True
    then show ?thesis using c by (simp add: newHeapPage_def)
  next
    case False
    then have pos: "0 < bytesPerTuple sl d"
      using bytesPerTuple_nonneg [of sl d] by simp
    from False c have "numSlots pg = word_of_int ((PageSize - 8) div bytesPerTuple sl d)"
      by (auto simp: newHeapPage_Some)
    then show ?thesis by (simp add: slots_in_int32 [OF pos])
  qed
next
  assume "bytesPerTuple sl d \<noteq> 0"
  then show "\<exists>pg'. newHeapPage sl d pno f = Some pg'"
    by (simp add: newHeapPage_Some)
qed

theorem newHeapPage_numSlots_witness:
  "bytesPerTuple 32 ageDesc \<noteq> 0
   \<and> newHeapPage 32 ageDesc 0 ''t.dat'' = Some exCleanPage
   \<and> sint (numSlots exCleanPage) = 511
   \<and> (PageSize - 8) div bytesPerTuple 32 ageDesc = 511"
proof -
  have b: "bytesPerTuple 32 ageDesc = 8"
    by (simp add: bytesPerTuple_def fieldSize_def ageDesc_def)
  have c: "newHeapPage 32 ageDesc 0 ''t.dat'' = Some exCleanPage"
    by (simp add: newHeapPage_Some b PageSize_def exCleanPage_def exDirtyPage_def)
  show ?thesis
    using newHeapPage_numSlots [of 32 ageDesc 0 "''t.dat''" exCleanPage] b c
    by (simp add: PageSize_def)
qed

section \<open>The buffer pool keeps its capacity and its dirty pages\<close>

lemma evictPage_cases:
  assumes "evictPage bp = (e, bp')"
  shows "maxPages bp' = maxPages bp \<and>
    ((e = None \<and> pages bp' = pages bp \<and> cacheSize bp < maxPages bp)
     \<or> (e = None \<and> maxPages bp \<le> cacheSize bp \<and>
         (\<exists>k pg. fmlookup (pages bp) k = Some pg \<and> \<not> isDirty pg \<and> pages bp' = fmdrop k (pages bp)))
     \<or> (e = Some BufferPoolFullError \<and> pages bp' = pages bp \<and> maxPages bp \<le> cacheSize bp))"
proof (cases "cacheSize bp < maxPages bp")
  case True
  then show ?thesis using assms by (auto simp: evictPage_def cacheSize_def)
next
  case False
  show ?thesis
  proof (cases "find (cleanAt (pages bp)) (rangeOrder bp (rangeCount bp))")
    case None
    then show ?thesis using assms False by (auto simp: evictPage_def cacheSize_def Let_def)
  next
    case (Some k)
    then have "cleanAt (pages bp) k" by (auto simp: find_Some_iff)
    then obtain pg where pg: "fmlookup (pages bp) k = Some pg" "\<not> isDirty pg"
      by (auto simp: cleanAt_def split: option.splits)
    have "e = None" "pages bp' = fmdrop k (pages bp)" "maxPages bp' = maxPages bp"
      using assms False Some by (auto simp: evictPage_def cacheSize_def Let_def)
    moreover have "maxPages bp \<le> cacheSize bp" using False by simp
    ultimately show ?thesis using pg by blast
  qed
qed

lemma allDirty_iff: "allDirty bp \<longleftrightarrow> (\<forall>k pg. fmlookup (pages bp) k = Some pg \<longrightarrow> isDirty pg)"
  by (auto simp: allDirty_def fmpred_iff)

lemma evictPage_allDirty:
  assumes "allDirty bp" "maxPages bp \<le> cacheSize bp"
  shows "\<exists>bp'. evictPage bp = (Some BufferPoolFullError, bp') \<and> pages bp' = pages bp"
proof -
  have "find (cleanAt (pages bp)) ks = None" for ks
    using assms(1) by (auto simp: find_None_iff cleanAt_def allDirty_iff split: option.splits)
  then show ?thesis using assms(2) by (simp add: evictPage_def cacheSize_def Let_def)
qed

lemma evictPage_size:
  assumes "evictPage bp = (None, bp1)" "cacheSize bp \<le> maxPages bp"
  shows "cacheSize bp1 < maxPages bp1"
proof -
  have "fcard (fmdom (fmdrop k (pages bp))) < fcard (fmdom (pages bp))"
    if "fmlookup (pages bp) k = Some pg" for k pg
    using that by (metis fmdom_drop fcard_fminus1_less fmlookup_dom_iff)
  then show ?thesis
    using evictPage_cases [OF assms(1)] assms(2) by (auto simp: cacheSize_def)
qed

lemma cacheSize_fmupd: "cacheSize (bp\<lparr>pages := fmupd k pg (pages bp)\<rparr>) \<le> cacheSize bp + 1"
  by (simp add: cacheSize_def fcard_finsert_if)

lemma GetPage_maxPages:
  assumes "GetPage sl bp dk f pno = Some (r, bp')"
  shows "maxPages bp' = maxPages bp"
proof (cases "fmlookup (pages bp) (pageKey f pno)")
  case (Some pg)
  then show ?thesis using assms by (simp add: GetPage_def)
next
  case None
  obtain e bp1 where ev: "evictPage bp = (e, bp1)" by (cases "evictPage bp")
  from evictPage_cases [OF ev] have "maxPages bp1 = maxPages bp" by simp
  then show ?thesis
    using assms None ev by (auto simp: GetPage_def split: option.splits sum.splits)
qed

lemma GetPage_capacity:
  assumes "GetPage sl bp dk f pno = Some (r, bp')" "cacheSize bp \<le> maxPages bp"
  shows "cacheSize bp' \<le> maxPages bp'"
proof (cases "fmlookup (pages bp) (pageKey f pno)")
  case (Some pg)
  then show ?thesis using assms by (simp add: GetPage_def)
next
  case None
  obtain e bp1 where ev: "evictPage bp = (e, bp1)" by (cases "evictPage bp")
  show ?thesis
  proof (cases e)
    case (Some err)
    then have "bp' = bp1" using assms(1) None ev by (simp add: GetPage_def)
    moreover have "pages bp1 = pages bp" "maxPages bp1 = maxPages bp"
      using evictPage_cases [OF ev] Some by auto
    ultimately show ?thesis using assms(2) by (simp add: cacheSize_def)
  next
    case e: None
    then have lt: "cacheSize bp1 < maxPages bp1"
      using evictPage_size ev assms(2) by blast
    from assms(1) None ev e consider "bp' = bp1"
      | pg where "bp' = bp1\<lparr>pages := fmupd (pageKey f pno) pg (pages bp1)\<rparr>"
      by (auto simp: GetPage_def split: option.splits sum.splits)
    then show ?thesis
    proof cases
      case 1
      then show ?thesis using lt by simp
    next
      case 2
      then show ?thesis
        using lt cacheSize_fmupd [where bp = bp1 and k = "pageKey f pno" and pg = pg] by simp
    qed
  qed
qed

lemma GetPage_keeps_dirty:
  assumes "GetPage sl bp dk f pno = Some (r, bp')"
    and "fmlookup (pages bp) k = Some pg" "isDirty pg"
  shows "fmlookup (pages bp') k = Some pg"
proof (cases "fmlookup (pages bp) (pageKey f pno)")
  case (Some pg')
  then show ?thesis using assms by (simp add: GetPage_def)
next
  case None
  then have ne: "k \<noteq> pageKey f pno" using assms(2) by auto
  obtain e bp1 where ev: "evictPage bp = (e, bp1)" by (cases "evictPage bp")
  have "fmlookup (pages bp1) k = Some pg"
    using evictPage_cases [OF ev] assms(2,3) by auto
  then show ?thesis
    using assms(1) None ev ne by (auto simp: GetPage_def split: option.splits sum.splits)
qed

lemma GetPage_all_dirty:
  assumes "fmlookup (pages bp) (pageKey f pno) = None" "allDirty bp" "maxPages bp \<le> cacheSize bp"
  shows "\<exists>bp'. GetPage sl bp dk f pno = Some (Inl BufferPoolFullError, bp') \<and> pages bp' = pages bp"
  using evictPage_allDirty [OF assms(2,3)] assms(1) by (auto simp: GetPage_def)

lemma GetPages_capacity:
  "GetPages sl bp dk reqs = Some bp' \<Longrightarrow> cacheSize bp \<le> maxPages bp
     \<Longrightarrow> cacheSize bp' \<le> maxPages bp' \<and> maxPages bp' = maxPages bp"
proof (induction reqs arbitrary: bp)
  case Nil
  then show ?case by simp
next
  case (Cons r rs)
  then obtain res bp1 where g: "GetPage sl bp dk (fst r) (snd r) = Some (res, bp1)"
    and rest: "GetPages sl bp1 dk rs = Some bp'"
    by (auto split: option.splits)
  from GetPage_capacity [OF g Cons.prems(2)] GetPage_maxPages [OF g] Cons.IH [OF rest]
  show ?case by simp
qed

lemma GetPages_keeps_dirty:
  "GetPages sl bp dk reqs = Some bp' \<Longrightarrow> fmlookup (pages bp) k = Some pg \<Longrightarrow> isDirty pg
     \<Longrightarrow> fmlookup (pages bp') k = Some pg"
proof (induction reqs arbitrary: bp)
  case Nil
  then show ?case by simp
next
  case (Cons r rs)
  then obtain res bp1 where g: "GetPage sl bp dk (fst r) (snd r) = Some (res, bp1)"
    and rest: "GetPages sl bp1 dk rs = Some bp'"
    by (auto split: option.splits)
  from GetPage_keeps_dirty [OF g Cons.prems(2,3)] Cons.IH [OF rest] Cons.prems(3)
  show ?case by simp
qed

text \<open>
  Claim C6. A run of \<open>GetPage\<close> calls from a pool that holds at most \<open>maxPages\<close> pages
  ends in such a pool (so does every prefix of the run); a dirty page that is cached
  stays cached, under its key and unchanged; and when the cache is full, every cached
  page is dirty and the page asked for is not cached, \<open>GetPage\<close> fails with
  \<open>BufferPoolFullError\<close> and the cache is as it was.
\<close>

theorem GetPage_capacity_and_dirty_pages:
  "(GetPages sl bp dk reqs = Some bp' \<and> cacheSize bp \<le> maxPages bp
      \<longrightarrow> cacheSize bp' \<le> maxPages bp' \<and> maxPages bp' = maxPages bp)
   \<and> (GetPages sl bp dk reqs = Some bp' \<and> fmlookup (pages bp) k = Some pg \<and> isDirty pg
      \<longrightarrow> fmlookup (pages bp') k = Some pg)
   \<and> (fmlookup (pages bp) (pageKey f pno) = None \<and> allDirty bp \<and> maxPages bp \<le> cacheSize bp
      \<longrightarrow> (\<exists>bp2. GetPage sl bp dk f pno = Some (Inl BufferPoolFullError, bp2)
             \<and> pages bp2 = pages bp))"
  using GetPages_capacity [of sl bp dk reqs bp'] GetPages_keeps_dirty [of sl bp dk reqs bp' k pg]
    GetPage_all_dirty [of bp f pno sl dk]
  by blast

lemma exPool_GetPage:
  "GetPage 32 exPool emptyDisk exFile 1 = Some (Inl BufferPoolFullError, exPool\<lparr>rangeCount := 1\<rparr>)"
  by (simp add: GetPage_def exPool_def exFile_def exDirtyPage_def pageKey_def evictPage_def
      cleanAt_def isDirty_def)

theorem GetPage_capacity_and_dirty_pages_witness:
  "GetPages 32 exPool emptyDisk [(exFile, 1)] = Some (exPool\<lparr>rangeCount := 1\<rparr>)
   \<and> cacheSize exPool \<le> maxPages exPool
   \<and> fmlookup (pages exPool) (''t.dat'', 0) = Some exDirtyPage \<and> isDirty exDirtyPage
   \<and> fmlookup (pages exPool) (pageKey exFile 1) = None \<and> allDirty exPool
   \<and> maxPages exPool \<le> cacheSize exPool
   \<and> cacheSize (exPool\<lparr>rangeCount := 1\<rparr>) \<le> maxPages (exPool\<lparr>rangeCount := 1\<rparr>)
   \<and> fmlookup (pages (exPool\<lparr>rangeCount := 1\<rparr>)) (''t.dat'', 0) = Some exDirtyPage
   \<and> (\<exists>bp2. GetPage 32 exPool emptyDisk exFile 1 = Some (Inl BufferPoolFullError, bp2)
         \<and> pages bp2 = pages exPool)"
proof -
  have run: "GetPages 32 exPool emptyDisk [(exFile, 1)] = Some (exPool\<lparr>rangeCount := 1\<rparr>)"
    by (simp add: exPool_GetPage)
  have size: "cacheSize exPool = 1" "maxPages exPool = 1"
    by (simp_all add: cacheSize_def exPool_def fcard_finsert_if)
  have look: "fmlookup (pages exPool) (''t.dat'', 0) = Some exDirtyPage"
    "fmlookup (pages exPool) (pageKey exFile 1) = None"
    by (simp_all add: exPool_def pageKey_def exFile_def)
  have dirty: "isDirty exDirtyPage" "allDirty exPool"
    by (auto simp: allDirty_def exPool_def isDirty_def exDirtyPage_def intro!: fmpred_upd)
  show ?thesis
    using GetPage_capacity_and_dirty_pages [of 32 exPool emptyDisk "[(exFile, 1)]"
        "exPool\<lparr>rangeCount := 1\<rparr>" "(''t.dat'', 0)" exDirtyPage exFile 1]
      run size look dirty
    by simp
qed

section \<open>Little-endian words\<close>

lemma le_word_Cons: "le_word (b # bs) = (ucast b OR push_bit 8 (le_word bs) :: 'a::len word)"
  by (simp add: le_word_def)

lemma le_word_Nil: "le_word [] = 0"
  by (simp add: le_word_def)

lemma byte_step:
  "(ucast (ucast x :: byte) OR push_bit 8 (take_bit m (drop_bit 8 x)) :: 'a::len word) = take_bit (8 + m) x"
  by (rule bit_word_eqI) (auto simp: bit_simps)

lemma le_word_bytes_from:
  "(le_word (map (\<lambda>i. ucast (drop_bit (8 * i) w)) [k..<k + n]) :: 'a::len word)
     = take_bit (8 * n) (drop_bit (8 * k) (w :: 'a word))"
proof (induction n arbitrary: k)
  case 0
  then show ?case by (simp add: le_word_Nil)
next
  case (Suc n)
  have "[k..<k + Suc n] = k # [Suc k..<Suc k + n]"
    by (simp add: upt_rec)
  then show ?case
    using Suc.IH [of "Suc k"] byte_step [of "drop_bit (8 * k) w" "8 * n"]
    by (simp add: le_word_Cons drop_bit_drop_bit add.commute)
qed

lemma le_word_le_bytes: "le_word (le_bytes n w) = take_bit (8 * n) w"
  using le_word_bytes_from [of w 0 n] by (simp add: le_bytes_def)

lemma le_word_le_bytes_32: "le_word (le_bytes 4 w) = (w :: 32 word)"
  by (simp add: le_word_le_bytes take_bit_word_eq_self)

lemma le_word_le_bytes_64: "le_word (le_bytes 8 w) = (w :: 64 word)"
  by (simp add: le_word_le_bytes take_bit_word_eq_self)

lemma length_le_bytes: "length (le_bytes n w) = n"
  by (simp add: le_bytes_def)

lemma readInt32_le_bytes: "readInt32 (le_bytes 4 w @ rest) = Inr (w, rest)"
  by (simp add: readInt32_def length_le_bytes le_word_le_bytes_32)

section \<open>A fresh page, flushed and read back\<close>

lemma concat_empty_slots:
  "concat (map (\<lambda>s. case s of None \<Rightarrow> [] | Some t \<Rightarrow> writeTo sl t) (replicate n None)) = []"
  by (induction n) simp_all

lemma toBuffer_no_tuples:
  assumes "tuples h = replicate n None"
  shows "toBuffer sl h = Inr (le_bytes 4 (numSlots h) @ le_bytes 4 (numUsed h) @ replicate 4088 0)"
  using assms by (simp add: toBuffer_def concat_empty_slots length_le_bytes PageSize_def)

lemma initFromBuffer_no_tuples:
  assumes "0 \<le> sint ns"
  shows "initFromBuffer sl h (le_bytes 4 ns @ le_bytes 4 (0 :: 32 word) @ rest)
    = Some (Inr (h\<lparr>numSlots := ns, numUsed := 0, dirty := False,
                    tuples := replicate (nat (sint ns)) None\<rparr>))"
  using assms by (simp add: initFromBuffer_def readInt32_le_bytes)

lemma length_writeAt: "length (writeAt c off bs) = max (length c) (off + length bs)"
  by (auto simp: writeAt_def)

lemma read_writeAt: "length bs = n \<Longrightarrow> take n (drop off (writeAt c off bs)) = bs"
  by (auto simp: writeAt_def)

lemma newHeapPage_fields:
  assumes "newHeapPage sl d pno fn = Some hp"
  shows "desc hp = d" "numUsed hp = 0" "dirty hp = False" "pageNo hp = pno" "hfile hp = fn"
    "tuples hp = replicate (nat (sint (numSlots hp))) None" "0 \<le> sint (numSlots hp)"
  using assms by (auto simp: newHeapPage_def Let_def split: if_splits)

lemma flush_fresh_page:
  assumes hp: "newHeapPage sl d pno fn = Some hp" and pno: "0 \<le> pno"
  shows "flushPage sl fn dk hp =
    (None, dk(fn := writeAt (dk fn) (nat (pno * PageSize))
       (le_bytes 4 (numSlots hp) @ le_bytes 4 (0 :: 32 word) @ replicate 4088 0)))"
proof -
  have "toBuffer sl hp = Inr (le_bytes 4 (numSlots hp) @ le_bytes 4 (0 :: 32 word) @ replicate 4088 0)"
    using toBuffer_no_tuples [OF newHeapPage_fields(6) [OF hp]] newHeapPage_fields(2) [OF hp]
    by simp
  moreover have "\<not> pno * PageSize < 0" using pno by (simp add: PageSize_def)
  ultimately show ?thesis
    by (simp add: flushPage_def newHeapPage_fields(4) [OF hp])
qed

lemma readPage_fresh_page:
  assumes hp: "newHeapPage sl (td f) pno (backingFile f) = Some hp" and pno: "0 \<le> pno"
    and dk: "dk (backingFile f) = writeAt c (nat (pno * PageSize))
       (le_bytes 4 (numSlots hp) @ le_bytes 4 (0 :: 32 word) @ replicate 4088 0)"
  shows "readPage sl dk f pno = Some (Inr hp)"
proof -
  let ?img = "le_bytes 4 (numSlots hp) @ le_bytes 4 (0 :: 32 word) @ replicate 4088 (0 :: byte)"
  have len: "length ?img = 4096" by (simp add: length_le_bytes)
  have "take (nat PageSize) (drop (nat (pno * PageSize)) (dk (backingFile f))) = ?img"
    using read_writeAt [OF len, of "nat (pno * PageSize)" c] dk by (simp add: PageSize_def)
  moreover have "\<not> int (length (dk (backingFile f))) < pno * PageSize + PageSize"
    using pno len by (simp add: dk length_writeAt PageSize_def)
  moreover have "\<not> pno * PageSize < 0" using pno by (simp add: PageSize_def)
  moreover have "hp\<lparr>numSlots := numSlots hp, numUsed := 0, dirty := False,
      tuples := replicate (nat (sint (numSlots hp))) None\<rparr> = hp"
    using newHeapPage_fields [OF hp] by simp
  ultimately show ?thesis
    using hp initFromBuffer_no_tuples [OF newHeapPage_fields(7) [OF hp], of sl hp "replicate 4088 0"]
    by (simp add: readPage_def)
qed


section \<open>Inserting into a heap file whose pages are full\<close>

declare probeLoop.simps [simp del]

lemma readPage_error_kind: "readPage sl dk f pno = Some (Inl e) \<Longrightarrow> e \<noteq> PageFullError"
  by (auto simp: readPage_def split: if_splits option.splits sum.splits)

lemma GetPage_error_kind:
  assumes "GetPage sl bp dk f pno = Some (Inl e, bp')"
  shows "e \<noteq> PageFullError"
proof (cases "fmlookup (pages bp) (pageKey f pno)")
  case (Some pg)
  then show ?thesis using assms by (simp add: GetPage_def)
next
  case None
  obtain ee bp1 where ev: "evictPage bp = (ee, bp1)" by (cases "evictPage bp")
  show ?thesis
  proof (cases ee)
    case (Some err)
    then have "err = BufferPoolFullError" using evictPage_cases [OF ev] by auto
    then show ?thesis using assms None ev Some by (auto simp: GetPage_def)
  next
    case ee: None
    then show ?thesis
      using assms None ev readPage_error_kind [of sl dk f pno e]
      by (auto simp: GetPage_def split: option.splits sum.splits)
  qed
qed

lemma probeLoop_no_PageFull:
  "probeLoop sl f bp dk t p n = Some (Inl (Some e, f', bp')) \<Longrightarrow> e \<noteq> PageFullError"
proof (induction sl f bp dk t p n rule: probeLoop.induct)
  case (1 sl f bp dk t p endPage)
  show ?case
  proof (cases "p < endPage")
    case False
    then show ?thesis using "1.prems" by (simp add: probeLoop.simps [of sl f bp dk t p endPage])
  next
    case True
    note lt = this
    show ?thesis
    proof (cases "GetPage sl bp dk f p")
      case None
      then show ?thesis using "1.prems" lt by (simp add: probeLoop.simps [of sl f bp dk t p endPage])
    next
      case (Some r)
      obtain res bp1 where r: "r = (res, bp1)" by (cases r)
      show ?thesis
      proof (cases res)
        case (Inl err)
        then have "e = err" using "1.prems" lt Some r
          by (simp add: probeLoop.simps [of sl f bp dk t p endPage])
        then show ?thesis using GetPage_error_kind Some r Inl by blast
      next
        case (Inr pg)
        show ?thesis
        proof (cases "getNumEmptySlots pg = 0")
          case True
          then have "probeLoop sl f bp1 dk t (p + 1) endPage = Some (Inl (Some e, f', bp'))"
            using "1.prems" lt Some r Inr by (simp add: probeLoop.simps [of sl f bp dk t p endPage])
          then show ?thesis using "1.IH"(1) lt Some r Inr True by blast
        next
          case False
          note ne = this
          show ?thesis
          proof (cases "GetPage sl bp1 dk f p")
            case None
            then show ?thesis using "1.prems" lt Some r Inr ne
              by (simp add: probeLoop.simps [of sl f bp dk t p endPage])
          next
            case g2: (Some r2)
            obtain res2 bp2 where r2: "r2 = (res2, bp2)" by (cases r2)
            show ?thesis
            proof (cases res2)
              case (Inl err)
              then have "e = err" using "1.prems" lt Some r Inr ne g2 r2
                by (simp add: probeLoop.simps [of sl f bp dk t p endPage])
              then show ?thesis using GetPage_error_kind g2 r2 Inl by blast
            next
              case heapp: (Inr heapp)
              show ?thesis
              proof (cases "page_insertTuple heapp t")
                case None
                then show ?thesis using "1.prems" lt Some r Inr ne g2 r2 heapp
                  by (simp add: probeLoop.simps [of sl f bp dk t p endPage])
              next
                case ins: (Some ir)
                show ?thesis
                proof (cases ir)
                  case (Inl err)
                  show ?thesis
                  proof (cases "err = PageFullError")
                    case True
                    then have "probeLoop sl f bp2 dk t (p + 1) endPage = Some (Inl (Some e, f', bp'))"
                      using "1.prems" lt Some r Inr ne g2 r2 heapp ins Inl
                      by (simp add: probeLoop.simps [of sl f bp dk t p endPage])
                    then show ?thesis
                      using "1.IH"(2) [OF lt Some r [symmetric] Inr ne g2 r2 [symmetric] heapp ins Inl] True
                      by simp
                  next
                    case False
                    then show ?thesis using "1.prems" lt Some r Inr ne g2 r2 heapp ins Inl
                      by (simp add: probeLoop.simps [of sl f bp dk t p endPage])
                  qed
                next
                  case (Inr pr)
                  then show ?thesis using "1.prems" lt Some r \<open>res = Inr pg\<close> ne g2 r2 heapp ins
                    by (simp add: probeLoop.simps [of sl f bp dk t p endPage] split: prod.splits)
                qed
              qed
            qed
          qed
        qed
      qed
    qed
  qed
qed


lemma GetPage_fresh_page:
  assumes hp: "newHeapPage sl (td f) pno (backingFile f) = Some hp" and pno: "0 \<le> pno"
    and dk: "dk (backingFile f) = writeAt c (nat (pno * PageSize))
       (le_bytes 4 (numSlots hp) @ le_bytes 4 (0 :: 32 word) @ replicate 4088 0)"
    and miss: "fmlookup (pages bp) (pageKey f pno) = None"
    and ev: "evictPage bp = (ee, bp2)"
  shows "GetPage sl bp dk f pno =
    (case ee of
       Some err \<Rightarrow> Some (Inl err, bp2)
     | None \<Rightarrow> Some (Inr hp, bp2\<lparr>pages := fmupd (pageKey f pno) hp (pages bp2)\<rparr>))"
  using readPage_fresh_page [where dk = dk and c = c, OF hp pno dk] miss ev
  by (simp add: GetPage_def split: option.splits)

lemma page_insertTuple_fresh:
  assumes "newHeapPage sl d pno fn = Some hp"
  shows "page_insertTuple hp t =
    (if sint (numSlots hp) = 0 then Some (Inl PageFullError)
     else Some (Inr (hp\<lparr>tuples := (tuples hp)[0 := Some (t\<lparr>Rid := Some (heapFileRid pno 0)\<rparr>)],
                        numUsed := 1\<rparr>,
                    t\<lparr>Rid := Some (heapFileRid pno 0)\<rparr>)))"
proof (cases "nat (sint (numSlots hp))")
  case 0
  then show ?thesis
    using newHeapPage_fields(7) [OF assms] by (simp add: page_insertTuple_def)
next
  case (Suc k)
  then show ?thesis
    using newHeapPage_fields [OF assms] by (simp add: page_insertTuple_def Let_def)
qed

lemma insertTuple_new_page:
  assumes probe: "probeLoop sl f bp dk t (probeStart f) (numPages f) = Some (Inr bp1)"
    and hp: "newHeapPage sl (td f) (numPages f) (backingFile f) = Some hp"
    and np: "0 \<le> numPages f"
    and miss: "fmlookup (pages bp1) (pageKey f (numPages f)) = None"
    and ev: "evictPage bp1 = (ee, bp2)"
  shows "insertTuple sl f bp dk t =
    (let dk1 = dk(backingFile f := writeAt (dk (backingFile f)) (nat (numPages f * PageSize))
                  (le_bytes 4 (numSlots hp) @ le_bytes 4 (0 :: 32 word) @ replicate 4088 0));
         f1 = f\<lparr>lastEmptyPage := numPages f, numPages := numPages f + 1\<rparr>
     in case ee of
          Some err \<Rightarrow> Some (Some err, f1, bp2, dk1)
        | None \<Rightarrow>
            if sint (numSlots hp) = 0
            then Some (Some PageFullError, f1,
                   bp2\<lparr>pages := fmupd (pageKey f (numPages f)) hp (pages bp2)\<rparr>, dk1)
            else Some (None, f1,
                   bp2\<lparr>pages := fmupd (pageKey f (numPages f))
                     (hp\<lparr>tuples := (tuples hp)[0 := Some (t\<lparr>Rid := Some (heapFileRid (numPages f) 0)\<rparr>)],
                         numUsed := 1, dirty := True\<rparr>) (pages bp2)\<rparr>, dk1))"
proof -
  let ?f1 = "f\<lparr>lastEmptyPage := numPages f, numPages := numPages f + 1\<rparr>"
  let ?dk1 = "dk(backingFile f := writeAt (dk (backingFile f)) (nat (numPages f * PageSize))
                  (le_bytes 4 (numSlots hp) @ le_bytes 4 (0 :: 32 word) @ replicate 4088 0))"
  have fl: "flushPage sl (backingFile f) dk hp = (None, ?dk1)"
    by (rule flush_fresh_page [OF hp np])
  have hp1: "newHeapPage sl (td ?f1) (numPages f) (backingFile ?f1) = Some hp"
    using hp by simp
  have key: "pageKey ?f1 (numPages f) = pageKey f (numPages f)"
    by (simp add: pageKey_def)
  have g: "GetPage sl bp1 ?dk1 ?f1 (numPages f) =
    (case ee of
       Some err \<Rightarrow> Some (Inl err, bp2)
     | None \<Rightarrow> Some (Inr hp, bp2\<lparr>pages := fmupd (pageKey f (numPages f)) hp (pages bp2)\<rparr>))"
    using GetPage_fresh_page [where dk = ?dk1 and c = "dk (backingFile f)", OF hp1 np _ _ ev] miss key
    by (simp split: option.splits)
  show ?thesis
  proof (cases ee)
    case (Some err)
    then show ?thesis
      using probe hp fl g by (simp add: insertTuple_def Let_def)
  next
    case None
    then show ?thesis
      using probe hp fl g page_insertTuple_fresh [OF hp, of t] key
      by (simp add: insertTuple_def Let_def setDirty_def)
  qed
qed

lemma writeAt_empty: "writeAt [] 0 bs = bs"
  by (simp add: writeAt_def)

lemma bytesPerTuple_intColumns: "bytesPerTuple sl (replicate n intColumn) = 8 * int n"
  by (simp add: bytesPerTuple_def fieldSize_def intColumn_def sum_list_replicate)

lemma newHeapPage_noSlot: "newHeapPage 32 (replicate 512 intColumn) 0 ''w.dat'' = Some noSlotPage"
  by (simp add: newHeapPage_Some bytesPerTuple_intColumns PageSize_def noSlotPage_def)

lemma newHeapPage_oneSlot: "newHeapPage 32 (replicate 511 intColumn) pno ''n.dat'' = Some (oneSlotPage pno)"
  by (simp add: newHeapPage_Some bytesPerTuple_intColumns PageSize_def oneSlotPage_def)

lemma probeLoop_done: "\<not> p < n \<Longrightarrow> probeLoop sl f bp dk t p n = Some (Inr bp)"
  by (simp add: probeLoop.simps [of sl f bp dk t p n])

lemma probeLoop_full_cached:
  assumes "p < n" "fmlookup (pages bp) (pageKey f p) = Some pg" "getNumEmptySlots pg = 0"
  shows "probeLoop sl f bp dk t p n = probeLoop sl f bp dk t (p + 1) n"
  using assms by (simp add: probeLoop.simps [of sl f bp dk t p n] GetPage_def)

lemma probeLoop_all_full:
  assumes "\<And>q. p \<le> q \<Longrightarrow> q < n
     \<Longrightarrow> \<exists>pg. fmlookup (pages bp) (pageKey f q) = Some pg \<and> getNumEmptySlots pg = 0"
  shows "probeLoop sl f bp dk t p n = Some (Inr bp)"
  using assms
proof (induction "nat (n - p)" arbitrary: p)
  case 0
  then show ?case by (simp add: probeLoop_done)
next
  case (Suc k)
  then have lt: "p < n" by simp
  then obtain pg where pg: "fmlookup (pages bp) (pageKey f p) = Some pg" "getNumEmptySlots pg = 0"
    using Suc.prems [of p] by auto
  have "probeLoop sl f bp dk t p n = probeLoop sl f bp dk t (p + 1) n"
    by (rule probeLoop_full_cached [OF lt pg])
  also have "\<dots> = Some (Inr bp)"
    using Suc.hyps(2) Suc.prems by (intro Suc.hyps(1)) auto
  finally show ?case .
qed

lemma insert_noSlot:
  "insertTuple 32 noSlotFile (exEmptyPool 2) emptyDisk noSlotTuple =
     Some (Some PageFullError, noSlotFile\<lparr>lastEmptyPage := 0, numPages := 1\<rparr>,
           (exEmptyPool 2)\<lparr>pages := fmupd (''w.dat'', 0) noSlotPage fmempty\<rparr>,
           emptyDisk(''w.dat'' := emptyImage 0))"
proof -
  have 1: "probeLoop 32 noSlotFile (exEmptyPool 2) emptyDisk noSlotTuple (probeStart noSlotFile) (numPages noSlotFile)
      = Some (Inr (exEmptyPool 2))"
    by (simp add: probeLoop_done noSlotFile_def probeStart_def)
  have 2: "newHeapPage 32 (td noSlotFile) (numPages noSlotFile) (backingFile noSlotFile) = Some noSlotPage"
    by (simp add: noSlotFile_def newHeapPage_noSlot)
  have 3: "0 \<le> numPages noSlotFile" by (simp add: noSlotFile_def)
  have 4: "fmlookup (pages (exEmptyPool 2)) (pageKey noSlotFile (numPages noSlotFile)) = None"
    by (simp add: exEmptyPool_def)
  have 5: "evictPage (exEmptyPool 2) = (None, exEmptyPool 2)"
    by (simp add: evictPage_def exEmptyPool_def fcard_fempty)
  show ?thesis
    using insertTuple_new_page [OF 1 2 3 4 5]
    by (simp add: noSlotFile_def noSlotPage_def pageKey_def exEmptyPool_def writeAt_empty emptyDisk_def emptyImage_def)
qed

lemma insert_oneSlot_first:
  "insertTuple 32 oneSlotFile (exEmptyPool 1) emptyDisk (oneSlotTuple 1) =
     Some (None, oneSlotFile\<lparr>lastEmptyPage := 0, numPages := 1\<rparr>, exFilledPool,
           emptyDisk(''n.dat'' := emptyImage 1))"
proof -
  have 1: "probeLoop 32 oneSlotFile (exEmptyPool 1) emptyDisk (oneSlotTuple 1)
      (probeStart oneSlotFile) (numPages oneSlotFile) = Some (Inr (exEmptyPool 1))"
    by (simp add: probeLoop_done oneSlotFile_def probeStart_def)
  have 2: "newHeapPage 32 (td oneSlotFile) (numPages oneSlotFile) (backingFile oneSlotFile)
      = Some (oneSlotPage 0)"
    by (simp add: oneSlotFile_def newHeapPage_oneSlot)
  have 3: "0 \<le> numPages oneSlotFile" by (simp add: oneSlotFile_def)
  have 4: "fmlookup (pages (exEmptyPool 1)) (pageKey oneSlotFile (numPages oneSlotFile)) = None"
    by (simp add: exEmptyPool_def)
  have 5: "evictPage (exEmptyPool 1) = (None, exEmptyPool 1)"
    by (simp add: evictPage_def exEmptyPool_def fcard_fempty)
  show ?thesis
    using insertTuple_new_page [OF 1 2 3 4 5]
    by (simp add: oneSlotFile_def oneSlotPage_def pageKey_def exEmptyPool_def writeAt_empty emptyDisk_def
        emptyImage_def exFilledPool_def exFilledPage_def)
qed

lemma insert_oneSlot_second:
  "insertTuple 32 (oneSlotFile\<lparr>lastEmptyPage := 0, numPages := 1\<rparr>) exFilledPool
       (emptyDisk(''n.dat'' := emptyImage 1)) (oneSlotTuple 2) =
     Some (Some BufferPoolFullError, oneSlotFile\<lparr>lastEmptyPage := 1, numPages := 2\<rparr>,
           exFilledPool\<lparr>rangeCount := 1\<rparr>,
           emptyDisk(''n.dat'' := emptyImage 1 @ emptyImage 1))"
proof -
  let ?f = "oneSlotFile\<lparr>lastEmptyPage := 0, numPages := 1\<rparr>"
  let ?dk = "emptyDisk(''n.dat'' := emptyImage 1)"
  have full: "getNumEmptySlots exFilledPage = 0"
    by (simp add: getNumEmptySlots_def exFilledPage_def oneSlotPage_def)
  have cached: "fmlookup (pages exFilledPool) (pageKey ?f 0) = Some exFilledPage"
    by (simp add: exFilledPool_def pageKey_def oneSlotFile_def)
  have 1: "probeLoop 32 ?f exFilledPool ?dk (oneSlotTuple 2) (probeStart ?f) (numPages ?f)
      = Some (Inr exFilledPool)"
    using probeLoop_full_cached [of 0 1 exFilledPool ?f exFilledPage 32 ?dk "oneSlotTuple 2"]
      cached full
    by (simp add: probeLoop_done probeStart_def)
  have 2: "newHeapPage 32 (td ?f) (numPages ?f) (backingFile ?f) = Some (oneSlotPage 1)"
    by (simp add: oneSlotFile_def newHeapPage_oneSlot)
  have 3: "0 \<le> numPages ?f" by simp
  have 4: "fmlookup (pages exFilledPool) (pageKey ?f (numPages ?f)) = None"
    by (simp add: exFilledPool_def pageKey_def oneSlotFile_def)
  have 5: "evictPage exFilledPool = (Some BufferPoolFullError, exFilledPool\<lparr>rangeCount := 1\<rparr>)"
    by (simp add: evictPage_def exFilledPool_def exEmptyPool_def fcard_finsert_if fcard_fempty
        cleanAt_def isDirty_def exFilledPage_def)
  have 6: "writeAt (emptyImage 1) 4096 (emptyImage 1) = emptyImage 1 @ emptyImage 1"
    by (simp add: writeAt_def emptyImage_def length_le_bytes)
  show ?thesis
    using insertTuple_new_page [OF 1 2 3 4 5] 6
    by (simp add: oneSlotFile_def oneSlotPage_def PageSize_def emptyImage_def [symmetric])
qed

text \<open>
  Claim C7, as amended. In a call of \<open>HeapFile.insertTuple\<close> the probing loop never
  returns \<open>PageFullError\<close>: it takes that error of a page and goes on. When the loop runs
  out of pages (every page it probed was full), the schema has a positive width, and the
  page with index \<open>numPages\<close> is not cached, the call writes the image of an empty page at
  index \<open>numPages\<close> of the backing file, adds one to \<open>numPages\<close>, sets \<open>lastEmptyPage\<close> to
  the index of the new page and gets that page from the buffer pool. If the pool takes
  the page and a page has a slot, the tuple is stored in slot 0 of the new page with its
  rid, the page is marked dirty and the call returns \<open>nil\<close>. If the pool is full of dirty
  pages the call returns \<open>BufferPoolFullError\<close>, and if a page of this schema has no slot
  it returns \<open>PageFullError\<close>; the tuple is stored in neither case.
\<close>

theorem insertTuple_allocates_new_page:
  "(probeLoop sl f bp dk t (probeStart f) (numPages f) = Some (Inl (Some e, f', bp'))
      \<longrightarrow> e \<noteq> PageFullError)
   \<and> (probeLoop sl f bp dk t (probeStart f) (numPages f) = Some (Inr bp1)
       \<and> newHeapPage sl (td f) (numPages f) (backingFile f) = Some hp
       \<and> 0 \<le> numPages f
       \<and> fmlookup (pages bp1) (pageKey f (numPages f)) = None
       \<and> evictPage bp1 = (ee, bp2)
      \<longrightarrow> (ee = None \<or> ee = Some BufferPoolFullError)
        \<and> insertTuple sl f bp dk t =
          (let dk1 = dk(backingFile f := writeAt (dk (backingFile f)) (nat (numPages f * PageSize))
                        (emptyImage (numSlots hp)));
               f1 = f\<lparr>lastEmptyPage := numPages f, numPages := numPages f + 1\<rparr>
           in case ee of
                Some err \<Rightarrow> Some (Some err, f1, bp2, dk1)
              | None \<Rightarrow>
                  if sint (numSlots hp) = 0
                  then Some (Some PageFullError, f1,
                         bp2\<lparr>pages := fmupd (pageKey f (numPages f)) hp (pages bp2)\<rparr>, dk1)
                  else Some (None, f1,
                         bp2\<lparr>pages := fmupd (pageKey f (numPages f))
                           (hp\<lparr>tuples := (tuples hp)
                                  [0 := Some (t\<lparr>Rid := Some (heapFileRid (numPages f) 0)\<rparr>)],
                               numUsed := 1, dirty := True\<rparr>) (pages bp2)\<rparr>, dk1)))"
proof (intro conjI impI)
  assume "probeLoop sl f bp dk t (probeStart f) (numPages f) = Some (Inl (Some e, f', bp'))"
  then show "e \<noteq> PageFullError" by (rule probeLoop_no_PageFull)
next
  assume a: "probeLoop sl f bp dk t (probeStart f) (numPages f) = Some (Inr bp1)
       \<and> newHeapPage sl (td f) (numPages f) (backingFile f) = Some hp
       \<and> 0 \<le> numPages f
       \<and> fmlookup (pages bp1) (pageKey f (numPages f)) = None
       \<and> evictPage bp1 = (ee, bp2)"
  then show "ee = None \<or> ee = Some BufferPoolFullError"
    using evictPage_cases [of bp1 ee bp2] by auto
  from a show "insertTuple sl f bp dk t =
          (let dk1 = dk(backingFile f := writeAt (dk (backingFile f)) (nat (numPages f * PageSize))
                        (emptyImage (numSlots hp)));
               f1 = f\<lparr>lastEmptyPage := numPages f, numPages := numPages f + 1\<rparr>
           in case ee of
                Some err \<Rightarrow> Some (Some err, f1, bp2, dk1)
              | None \<Rightarrow>
                  if sint (numSlots hp) = 0
                  then Some (Some PageFullError, f1,
                         bp2\<lparr>pages := fmupd (pageKey f (numPages f)) hp (pages bp2)\<rparr>, dk1)
                  else Some (None, f1,
                         bp2\<lparr>pages := fmupd (pageKey f (numPages f))
                           (hp\<lparr>tuples := (tuples hp)
                                  [0 := Some (t\<lparr>Rid := Some (heapFileRid (numPages f) 0)\<rparr>)],
                               numUsed := 1, dirty := True\<rparr>) (pages bp2)\<rparr>, dk1))"
    using insertTuple_new_page [of sl f bp dk t bp1 hp ee bp2]
    by (simp add: emptyImage_def)
qed

theorem insertTuple_allocates_new_page_witness:
  "probeLoop 32 oneSlotFile (exEmptyPool 1) emptyDisk (oneSlotTuple 1)
      (probeStart oneSlotFile) (numPages oneSlotFile) = Some (Inr (exEmptyPool 1))
   \<and> newHeapPage 32 (td oneSlotFile) (numPages oneSlotFile) (backingFile oneSlotFile)
      = Some (oneSlotPage 0)
   \<and> 0 \<le> numPages oneSlotFile
   \<and> fmlookup (pages (exEmptyPool 1)) (pageKey oneSlotFile (numPages oneSlotFile)) = None
   \<and> evictPage (exEmptyPool 1) = (None, exEmptyPool 1)
   \<and> insertTuple 32 oneSlotFile (exEmptyPool 1) emptyDisk (oneSlotTuple 1) =
     Some (None, oneSlotFile\<lparr>lastEmptyPage := 0, numPages := 1\<rparr>, exFilledPool,
           emptyDisk(''n.dat'' := emptyImage 1))"
proof -
  have 1: "probeLoop 32 oneSlotFile (exEmptyPool 1) emptyDisk (oneSlotTuple 1)
      (probeStart oneSlotFile) (numPages oneSlotFile) = Some (Inr (exEmptyPool 1))"
    by (simp add: probeLoop_done oneSlotFile_def probeStart_def)
  have 2: "newHeapPage 32 (td oneSlotFile) (numPages oneSlotFile) (backingFile oneSlotFile)
      = Some (oneSlotPage 0)"
    by (simp add: oneSlotFile_def newHeapPage_oneSlot)
  have 3: "0 \<le> numPages oneSlotFile" by (simp add: oneSlotFile_def)
  have 4: "fmlookup (pages (exEmptyPool 1)) (pageKey oneSlotFile (numPages oneSlotFile)) = None"
    by (simp add: exEmptyPool_def)
  have 5: "evictPage (exEmptyPool 1) = (None, exEmptyPool 1)"
    by (simp add: evictPage_def exEmptyPool_def fcard_fempty)
  have "insertTuple 32 oneSlotFile (exEmptyPool 1) emptyDisk (oneSlotTuple 1) =
     Some (None, oneSlotFile\<lparr>lastEmptyPage := 0, numPages := 1\<rparr>, exFilledPool,
           emptyDisk(''n.dat'' := emptyImage 1))"
    using insertTuple_allocates_new_page [of 32 oneSlotFile "exEmptyPool 1" emptyDisk
        "oneSlotTuple 1" PageFullError oneSlotFile "exEmptyPool 1" "exEmptyPool 1" "oneSlotPage 0" None
        "exEmptyPool 1"] 1 2 3 4 5
    by (simp add: oneSlotFile_def oneSlotPage_def pageKey_def exEmptyPool_def writeAt_empty emptyDisk_def
        exFilledPool_def exFilledPage_def)
  then show ?thesis using 1 2 3 4 5 by simp
qed

theorem insertTuple_allocates_new_page_counterexample:
  "insertTuple 32 noSlotFile (exEmptyPool 2) emptyDisk noSlotTuple =
     Some (Some PageFullError, noSlotFile\<lparr>lastEmptyPage := 0, numPages := 1\<rparr>,
           (exEmptyPool 2)\<lparr>pages := fmupd (''w.dat'', 0) noSlotPage fmempty\<rparr>,
           emptyDisk(''w.dat'' := emptyImage 0))
   \<and> insertTuple 32 oneSlotFile (exEmptyPool 1) emptyDisk (oneSlotTuple 1) =
     Some (None, oneSlotFile\<lparr>lastEmptyPage := 0, numPages := 1\<rparr>, exFilledPool,
           emptyDisk(''n.dat'' := emptyImage 1))
   \<and> insertTuple 32 (oneSlotFile\<lparr>lastEmptyPage := 0, numPages := 1\<rparr>) exFilledPool
       (emptyDisk(''n.dat'' := emptyImage 1)) (oneSlotTuple 2) =
     Some (Some BufferPoolFullError, oneSlotFile\<lparr>lastEmptyPage := 1, numPages := 2\<rparr>,
           exFilledPool\<lparr>rangeCount := 1\<rparr>,
           emptyDisk(''n.dat'' := emptyImage 1 @ emptyImage 1))"
  using insert_noSlot insert_oneSlot_first insert_oneSlot_second by simp

section \<open>A failed delete leaves the page dirty\<close>

lemma page_deleteTuple_not_found:
  assumes "slot < 0 \<or> sint (numSlots pg) \<le> slot
     \<or> (nat slot < length (tuples pg) \<and> tuples pg ! nat slot = None)"
  shows "page_deleteTuple pg (heapFileRid pno slot) = Some (Some TupleNotFoundError, pg)"
  using assms by (auto simp: page_deleteTuple_def)

lemma GetPage_error_is:
  assumes "GetPage sl bp dk f pno = Some (Inl e, bp1)"
  shows "(e = BufferPoolFullError \<or> (\<exists>s. e = IOError s))
    \<and> (\<forall>k pg. fmlookup (pages bp1) k = Some pg \<longrightarrow> fmlookup (pages bp) k = Some pg)"
proof (cases "fmlookup (pages bp) (pageKey f pno)")
  case (Some pg)
  then show ?thesis using assms by (simp add: GetPage_def)
next
  case None
  obtain ee bp2 where ev: "evictPage bp = (ee, bp2)" by (cases "evictPage bp")
  have sub: "\<forall>k pg. fmlookup (pages bp2) k = Some pg \<longrightarrow> fmlookup (pages bp) k = Some pg"
    using evictPage_cases [OF ev] by (auto split: if_splits)
  show ?thesis
  proof (cases ee)
    case (Some err)
    then have "err = BufferPoolFullError" using evictPage_cases [OF ev] by auto
    then show ?thesis using assms None ev Some sub by (auto simp: GetPage_def)
  next
    case ee: None
    have "e = BufferPoolFullError \<or> (\<exists>s. e = IOError s)" if "readPage sl dk f pno = Some (Inl e)"
      using that by (auto simp: readPage_def split: if_splits option.splits sum.splits)
    then show ?thesis
      using assms None ev ee sub
      by (auto simp: GetPage_def split: option.splits sum.splits)
  qed
qed

text \<open>
  Claim C10, as amended. In a call of \<open>HeapFile.deleteTuple\<close> whose tuple has a heap rid
  with a valid page number, the page is first asked of the buffer pool. When the pool
  returns the page and the slot of the rid is out of range or already empty, the call
  returns \<open>TupleNotFoundError\<close>; the heap file is as it was, and so is the cached page but
  for its dirty flag, which is set: the slots and the count of used slots are unchanged.
  When the pool returns an error instead, \<open>BufferPoolFullError\<close> or an I/O error, the call
  returns that error and not \<open>TupleNotFoundError\<close>, and every page that is cached
  afterwards is as it was, so no page is marked dirty. When \<open>GetPage\<close> panics, so does the
  call.
\<close>

theorem deleteTuple_not_found_marks_dirty:
  assumes "Rid t = Some (heapFileRid pno slot)"
    and "0 \<le> pno" "pno < numPages f"
  shows "(GetPage sl bp dk f pno = Some (Inr pg, bp1)
       \<and> (slot < 0 \<or> sint (numSlots pg) \<le> slot
          \<or> (nat slot < length (tuples pg) \<and> tuples pg ! nat slot = None))
      \<longrightarrow> deleteTuple sl f bp dk t =
            Some (Some TupleNotFoundError, f,
              bp1\<lparr>pages := fmupd (pageKey f pno) (pg\<lparr>dirty := True\<rparr>) (pages bp1)\<rparr>)
          \<and> tuples (pg\<lparr>dirty := True\<rparr>) = tuples pg
          \<and> numUsed (pg\<lparr>dirty := True\<rparr>) = numUsed pg
          \<and> isDirty (pg\<lparr>dirty := True\<rparr>))
   \<and> (GetPage sl bp dk f pno = Some (Inl e, bp2)
      \<longrightarrow> deleteTuple sl f bp dk t = Some (Some e, f, bp2)
          \<and> (e = BufferPoolFullError \<or> (\<exists>s. e = IOError s))
          \<and> (\<forall>k pg'. fmlookup (pages bp2) k = Some pg' \<longrightarrow> fmlookup (pages bp) k = Some pg'))
   \<and> (GetPage sl bp dk f pno = None \<longrightarrow> deleteTuple sl f bp dk t = None)"
proof (intro conjI impI)
  assume a: "GetPage sl bp dk f pno = Some (Inr pg, bp1)
       \<and> (slot < 0 \<or> sint (numSlots pg) \<le> slot
          \<or> (nat slot < length (tuples pg) \<and> tuples pg ! nat slot = None))"
  then have "page_deleteTuple (setDirty pg True) (heapFileRid pno slot)
      = Some (Some TupleNotFoundError, setDirty pg True)"
    by (intro page_deleteTuple_not_found) (simp add: setDirty_def)
  then show "deleteTuple sl f bp dk t =
            Some (Some TupleNotFoundError, f,
              bp1\<lparr>pages := fmupd (pageKey f pno) (pg\<lparr>dirty := True\<rparr>) (pages bp1)\<rparr>)"
    using assms a by (simp add: deleteTuple_def setDirty_def)
  show "tuples (pg\<lparr>dirty := True\<rparr>) = tuples pg" "numUsed (pg\<lparr>dirty := True\<rparr>) = numUsed pg"
    "isDirty (pg\<lparr>dirty := True\<rparr>)"
    by (simp_all add: isDirty_def)
next
  assume a: "GetPage sl bp dk f pno = Some (Inl e, bp2)"
  then show "deleteTuple sl f bp dk t = Some (Some e, f, bp2)"
    using assms by (simp add: deleteTuple_def)
  from GetPage_error_is [OF a]
  show "e = BufferPoolFullError \<or> (\<exists>s. e = IOError s)"
    "\<forall>k pg'. fmlookup (pages bp2) k = Some pg' \<longrightarrow> fmlookup (pages bp) k = Some pg'"
    by blast+
next
  assume "GetPage sl bp dk f pno = None"
  then show "deleteTuple sl f bp dk t = None"
    using assms by (simp add: deleteTuple_def)
qed

theorem deleteTuple_not_found_marks_dirty_witness:
  "Rid (exTuple\<lparr>Rid := Some (heapFileRid 0 5)\<rparr>) = Some (heapFileRid 0 5)
   \<and> (0 :: int) \<le> 0 \<and> 0 < numPages exFile
   \<and> GetPage 32 exCleanPool emptyDisk exFile 0 = Some (Inr exCleanPage, exCleanPool)
   \<and> nat 5 < length (tuples exCleanPage) \<and> tuples exCleanPage ! nat 5 = None
   \<and> \<not> isDirty exCleanPage
   \<and> deleteTuple 32 exFile exCleanPool emptyDisk (exTuple\<lparr>Rid := Some (heapFileRid 0 5)\<rparr>) =
      Some (Some TupleNotFoundError, exFile, exPool)
   \<and> Rid (exTuple\<lparr>Rid := Some (heapFileRid 1 5)\<rparr>) = Some (heapFileRid 1 5)
   \<and> (0 :: int) \<le> 1 \<and> 1 < numPages exFile
   \<and> GetPage 32 exPool emptyDisk exFile 1 = Some (Inl BufferPoolFullError, exPool\<lparr>rangeCount := 1\<rparr>)
   \<and> deleteTuple 32 exFile exPool emptyDisk (exTuple\<lparr>Rid := Some (heapFileRid 1 5)\<rparr>) =
      Some (Some BufferPoolFullError, exFile, exPool\<lparr>rangeCount := 1\<rparr>)"
proof -
  have 1: "Rid (exTuple\<lparr>Rid := Some (heapFileRid 0 5)\<rparr>) = Some (heapFileRid 0 5)" by simp
  have 2: "(0 :: int) \<le> 0" "0 < numPages exFile" by (simp_all add: exFile_def)
  have 3: "GetPage 32 exCleanPool emptyDisk exFile 0 = Some (Inr exCleanPage, exCleanPool)"
    by (simp add: GetPage_def exCleanPool_def pageKey_def exFile_def)
  have 4: "nat 5 < length (tuples exCleanPage)" "tuples exCleanPage ! nat 5 = None"
    "\<not> isDirty exCleanPage"
    by (simp_all add: exCleanPage_def exDirtyPage_def isDirty_def)
  have 5: "exCleanPool\<lparr>pages := fmupd (pageKey exFile 0) (exCleanPage\<lparr>dirty := True\<rparr>)
      (pages exCleanPool)\<rparr> = exPool"
    by (simp add: exCleanPool_def exPool_def exCleanPage_def exDirtyPage_def pageKey_def exFile_def)
  have 6: "Rid (exTuple\<lparr>Rid := Some (heapFileRid 1 5)\<rparr>) = Some (heapFileRid 1 5)" by simp
  have 7: "(0 :: int) \<le> 1" "1 < numPages exFile" by (simp_all add: exFile_def)
  show ?thesis
    using deleteTuple_not_found_marks_dirty [OF 1 2, of 32 exCleanPool emptyDisk exCleanPage
        exCleanPool BufferPoolFullError exCleanPool]
      deleteTuple_not_found_marks_dirty [OF 6 7, of 32 exPool emptyDisk exCleanPage
        exCleanPool BufferPoolFullError "exPool\<lparr>rangeCount := 1\<rparr>"]
      exPool_GetPage 1 2 3 4 5 6 7
    by simp
qed

theorem deleteTuple_not_found_marks_dirty_counterexample:
  "Rid (exTuple\<lparr>Rid := Some (heapFileRid 1 9999)\<rparr>) = Some (heapFileRid 1 9999)
   \<and> (0 :: int) \<le> 1 \<and> 1 < numPages exFile
   \<and> deleteTuple 32 exFile exPool emptyDisk (exTuple\<lparr>Rid := Some (heapFileRid 1 9999)\<rparr>) =
      Some (Some BufferPoolFullError, exFile, exPool\<lparr>rangeCount := 1\<rparr>)
   \<and> BufferPoolFullError \<noteq> TupleNotFoundError
   \<and> fmlookup (pages (exPool\<lparr>rangeCount := 1\<rparr>)) (pageKey exFile 1) = None
   \<and> deleteTuple 32 exFile (exEmptyPool 1) emptyDisk (exTuple\<lparr>Rid := Some (heapFileRid 1 9999)\<rparr>) =
      Some (Some (IOError ''EOF''), exFile, exEmptyPool 1)
   \<and> IOError ''EOF'' \<noteq> TupleNotFoundError"
  by (simp add: deleteTuple_def exPool_GetPage exFile_def [symmetric])
    (simp add: GetPage_def exEmptyPool_def evictPage_def fcard_fempty readPage_def pageKey_def
      exFile_def emptyDisk_def PageSize_def exPool_def)

section \<open>The comparator of the order-by operator\<close>

declare lessLoop.simps [simp del]

lemma lessLoop_after_loop: "lessLoop cmpf ms p q (length (orderBy ms)) = None"
  by (simp add: lessLoop.simps [of cmpf ms p q "length (orderBy ms)"])

lemma lessLoop_tie:
  assumes "k < length (orderBy ms)" "k < length (ascending ms)"
    and "cmpf p q (orderBy ms ! k) = OrderedEqual" "cmpf q p (orderBy ms ! k) = OrderedEqual"
  shows "lessLoop cmpf ms p q k = lessLoop cmpf ms p q (k + 1)"
  using assms by (simp add: lessLoop.simps [of cmpf ms p q k])

lemma lessLoop_decides:
  assumes "k < length (orderBy ms)" "k < length (ascending ms)"
    and "(if ascending ms ! k then cmpf p q (orderBy ms ! k) else cmpf q p (orderBy ms ! k)) = c"
    and "c \<noteq> OrderedEqual"
  shows "lessLoop cmpf ms p q k = Some (c = OrderedLessThan)"
  using assms by (cases c) (simp_all add: lessLoop.simps [of cmpf ms p q k])

lemma ex_tie: "exCompareField exTuple exTuple 0 = OrderedEqual"
  by (simp add: exCompareField_def exTuple_def)

lemma ex_lt: "exCompareField exTuple exTuple2 0 = OrderedLessThan"
  by (simp add: exCompareField_def exTuple_def exTuple2_def)

lemma ex_gt: "exCompareField exTuple2 exTuple 0 = OrderedGreaterThan"
  by (simp add: exCompareField_def exTuple_def exTuple2_def)

text \<open>
  Claim C9 fails on the code. Once the loop of \<open>multiSorter.Less\<close> has gone through all
  keys (every key compared equal, or there is no key), the statements after it index
  \<open>ms.ascending\<close> and \<open>ms.orderBy\<close> with the length of the key list, and \<open>Less\<close> panics;
  here for two tuples with the same key. It returns a boolean when a key decides.
\<close>

theorem Less_panics_on_equal_keys:
  "lessLoop cmpf ms p q (length (orderBy ms)) = None
   \<and> Less exCompareField \<lparr>data = [exTuple, exTuple], orderBy = [0], ascending = [True]\<rparr> 1 0 = None
   \<and> Less exCompareField \<lparr>data = [exTuple, exTuple2], orderBy = [0], ascending = [True]\<rparr> 0 1 = Some True"
proof -
  let ?ms = "\<lparr>data = [exTuple, exTuple], orderBy = [0::nat], ascending = [True]\<rparr>"
  have "lessLoop exCompareField ?ms exTuple exTuple 0 = lessLoop exCompareField ?ms exTuple exTuple (0 + 1)"
    by (rule lessLoop_tie) (simp_all add: ex_tie)
  also have "\<dots> = None"
    using lessLoop_after_loop [of exCompareField ?ms exTuple exTuple] by simp
  finally have 1: "Less exCompareField ?ms 1 0 = None"
    by (simp add: Less_def)
  let ?ms2 = "\<lparr>data = [exTuple, exTuple2], orderBy = [0::nat], ascending = [True]\<rparr>"
  have "lessLoop exCompareField ?ms2 exTuple exTuple2 0 = Some (OrderedLessThan = OrderedLessThan)"
    by (rule lessLoop_decides) (simp_all add: ex_lt)
  then have 2: "Less exCompareField ?ms2 0 1 = Some True"
    by (simp add: Less_def)
  show ?thesis using 1 2 lessLoop_after_loop by blast
qed


section \<open>The iterator of the order-by operator\<close>

lemma OrderBy_Iterator_error: "OrderBy_Iterator libSort keys asc child \<noteq> Some (it, None)"
  by (simp add: OrderBy_Iterator_def split: sum.splits option.splits)

lemma Less_ex_gt:
  "Less exCompareField \<lparr>data = [exTuple2, exTuple], orderBy = [0], ascending = [True]\<rparr> (Suc 0) 0
     = Some True"
proof -
  let ?ms = "\<lparr>data = [exTuple2, exTuple], orderBy = [0::nat], ascending = [True]\<rparr>"
  have "lessLoop exCompareField ?ms exTuple exTuple2 0 = Some (OrderedLessThan = OrderedLessThan)"
    by (rule lessLoop_decides) (simp_all add: ex_lt)
  then show ?thesis by (simp add: Less_def)
qed

lemma Less_ex_tie:
  "Less exCompareField \<lparr>data = [exTuple, exTuple], orderBy = [0], ascending = [True]\<rparr> (Suc 0) 0
     = None"
proof -
  let ?ms = "\<lparr>data = [exTuple, exTuple], orderBy = [0::nat], ascending = [True]\<rparr>"
  have "lessLoop exCompareField ?ms exTuple exTuple 0 = lessLoop exCompareField ?ms exTuple exTuple (0 + 1)"
    by (rule lessLoop_tie) (simp_all add: ex_tie)
  also have "\<dots> = None"
    using lessLoop_after_loop [of exCompareField ?ms exTuple exTuple] by simp
  finally show ?thesis by (simp add: Less_def)
qed

text \<open>
  Claim C3 fails on the code. \<open>OrderBy.Iterator\<close> returns the error
  \<open>order_by_op.Iterator not implemented\<close> beside its iterator for every child and every
  key list, so the construction never succeeds; here for a child of two tuples, which
  the iterator would yield in key order. For a child with two tuples of the same key
  the comparator panics during the sort.
\<close>

theorem OrderBy_Iterator_returns_error:
  "OrderBy_Iterator libSort keys asc child \<noteq> Some (it, None)
   \<and> OrderBy_Iterator (exSort exCompareField) [0] [True] (Inr [Inr exTuple2, Inr exTuple])
       = Some (Some [exTuple, exTuple2], Some (Errorf ''order_by_op.Iterator not implemented''))
   \<and> OrderBy_Iterator (exSort exCompareField) [0] [True] (Inr [Inr exTuple, Inr exTuple]) = None"
proof -
  have 1: "exSort exCompareField \<lparr>data = [exTuple2, exTuple], orderBy = [0], ascending = [True]\<rparr>
      = Some \<lparr>data = [exTuple, exTuple2], orderBy = [0], ascending = [True]\<rparr>"
    by (simp add: exSort_def Less_ex_gt Swap_def)
  have 2: "exSort exCompareField \<lparr>data = [exTuple, exTuple], orderBy = [0], ascending = [True]\<rparr> = None"
    by (simp add: exSort_def Less_ex_tie)
  show ?thesis
    using OrderBy_Iterator_error [of libSort keys asc child it]
    by (simp add: OrderBy_Iterator_def 1 2)
qed

section \<open>The iterators of the insert and delete operators\<close>

lemma InsertOp_pull_completed:
  "InsertOp_pull fileOp op (True, w) = Some (Inr (Some (countTuple 0)), True, w)"
  by (simp add: InsertOp_pull_def)

lemma DeleteOp_pull_completed:
  "DeleteOp_pull fileOp op (True, w) = Some (Inr (Some (countTuple 0)), True, w)"
  by (simp add: DeleteOp_pull_def)

lemma delete_oneSlot:
  "deleteTuple 32 (oneSlotFile\<lparr>lastEmptyPage := 0, numPages := 1\<rparr>) exFilledPool
       (emptyDisk(''n.dat'' := emptyImage 1)) ((oneSlotTuple 1)\<lparr>Rid := Some (heapFileRid 0 0)\<rparr>) =
     Some (None, oneSlotFile\<lparr>lastEmptyPage := 0, numPages := 1\<rparr>,
           (exEmptyPool 1)\<lparr>pages := fmupd (''n.dat'', 0) ((oneSlotPage 0)\<lparr>dirty := True\<rparr>) fmempty\<rparr>)"
  by (simp add: deleteTuple_def GetPage_def exFilledPool_def exFilledPage_def pageKey_def
      oneSlotFile_def setDirty_def page_deleteTuple_def oneSlotPage_def exEmptyPool_def)

text \<open>
  Claim C2 fails on the code. The first pull of the iterator of an \<open>InsertOp\<close> (of a
  \<open>DeleteOp\<close>) applies \<open>insertTuple\<close> (\<open>deleteTuple\<close>) to the tuples of the child and
  yields the tuple \<open>{count: 1}\<close> for a child of one tuple; but once \<open>completed\<close> is set,
  every pull yields the tuple \<open>{count: 0}\<close> and never \<open>nil\<close>, whatever the file and the
  child.
\<close>

theorem InsertOp_DeleteOp_pull_after_completed:
  "InsertOp_pull fileOp op (True, w) = Some (Inr (Some (countTuple 0)), True, w)
   \<and> DeleteOp_pull fileOp op (True, w) = Some (Inr (Some (countTuple 0)), True, w)
   \<and> InsertOp_pull (heapInsert 32) (Inr [Inr (oneSlotTuple 1)])
        (False, oneSlotFile, exEmptyPool 1, emptyDisk)
      = Some (Inr (Some (countTuple 1)), True,
          oneSlotFile\<lparr>lastEmptyPage := 0, numPages := 1\<rparr>, exFilledPool,
          emptyDisk(''n.dat'' := emptyImage 1))
   \<and> InsertOp_pull (heapInsert 32) (Inr [Inr (oneSlotTuple 1)])
        (True, oneSlotFile\<lparr>lastEmptyPage := 0, numPages := 1\<rparr>, exFilledPool,
          emptyDisk(''n.dat'' := emptyImage 1))
      = Some (Inr (Some (countTuple 0)), True,
          oneSlotFile\<lparr>lastEmptyPage := 0, numPages := 1\<rparr>, exFilledPool,
          emptyDisk(''n.dat'' := emptyImage 1))
   \<and> DeleteOp_pull (heapDelete 32) (Inr [Inr ((oneSlotTuple 1)\<lparr>Rid := Some (heapFileRid 0 0)\<rparr>)])
        (False, oneSlotFile\<lparr>lastEmptyPage := 0, numPages := 1\<rparr>, exFilledPool,
          emptyDisk(''n.dat'' := emptyImage 1))
      = Some (Inr (Some (countTuple 1)), True,
          oneSlotFile\<lparr>lastEmptyPage := 0, numPages := 1\<rparr>,
          (exEmptyPool 1)\<lparr>pages := fmupd (''n.dat'', 0) ((oneSlotPage 0)\<lparr>dirty := True\<rparr>) fmempty\<rparr>,
          emptyDisk(''n.dat'' := emptyImage 1))
   \<and> countTuple 0 \<noteq> countTuple 1"
  by (simp add: InsertOp_pull_def DeleteOp_pull_def heapInsert_def heapDelete_def
      insert_oneSlot_first delete_oneSlot countTuple_def)

section \<open>The first loop of recovery ends\<close>

lemma length_toBuffer: "toBuffer sl h = Inr bs \<Longrightarrow> length bs = 4096"
  by (auto simp: toBuffer_def Let_def PageSize_def split: if_splits)

lemma initFromBuffer_fields:
  assumes "initFromBuffer sl h b = Some (Inr h')"
  shows "pageNo h' = pageNo h" "hfile h' = hfile h" "desc h' = desc h"
  using assms by (auto simp: initFromBuffer_def split: sum.splits option.splits if_splits)

lemma Force_remaining:
  assumes "Force f dk = (r, f1, dk1)"
  shows "fileName (lfile f1) = fileName (lfile f)" "remaining f1 dk1 \<le> remaining f dk"
    "r = None \<Longrightarrow> buf f1 = []"
  using assms
  by (auto simp: Force_def file_Write_def file_Sync_def remaining_def length_writeAt
      split: if_splits)

lemma LogFile_read_remaining:
  assumes "LogFile_read f dk n = (Inr bs, f1, dk1)"
  shows "fileName (lfile f1) = fileName (lfile f)" "remaining f1 dk1 + n \<le> remaining f dk"
    "buf f1 = []"
proof -
  obtain r f' dk' where fo: "Force f dk = (r, f', dk')" by (cases "Force f dk")
  with assms have r: "r = None" by (cases r) (simp_all add: LogFile_read_def)
  obtain fl where rf: "readFull (lfile f') dk' n = (Inr bs, fl)"
    and f1: "f1 = f'\<lparr>lfile := fl, offset := offset f' + of_nat n\<rparr>" and dk1: "dk1 = dk'"
    using assms fo r by (auto simp: LogFile_read_def split: prod.splits sum.splits)
  from rf have fl: "fileName fl = fileName (lfile f')"
    "position fl = position (lfile f') + n"
    "n = 0 \<or> position (lfile f') + n \<le> length (dk' (fileName (lfile f')))"
    by (auto simp: readFull_def Let_def split: if_splits)
  show "fileName (lfile f1) = fileName (lfile f)"
    using f1 fl Force_remaining(1) [OF fo] by simp
  show "buf f1 = []" using f1 Force_remaining(3) [OF fo r] by simp
  have "remaining f1 dk1 + n \<le> remaining f' dk'"
    using f1 dk1 fl by (auto simp: remaining_def)
  then show "remaining f1 dk1 + n \<le> remaining f dk"
    using Force_remaining(2) [OF fo] by simp
qed

lemma readTransactionID_remaining:
  assumes "readTransactionID f dk = (Inr t, f1, dk1)"
  shows "fileName (lfile f1) = fileName (lfile f)" "remaining f1 dk1 \<le> remaining f dk"
  using assms LogFile_read_remaining [of f dk 4]
  by (auto simp: readTransactionID_def split: prod.splits sum.splits)

lemma LogFile_readPage_remaining:
  assumes "LogFile_readPage sl f dk = Some (Inr pg, f1, dk1)"
  shows "fileName (lfile f1) = fileName (lfile f)" "remaining f1 dk1 \<le> remaining f dk"
    "pageNo pg < 2 ^ 31"
proof -
  note d = LogFile_readPage_def
  obtain x1 w1 d1 where e1: "LogFile_read f dk 4 = (x1, w1, d1)"
    by (cases "LogFile_read f dk 4")
  then obtain b1 where r1: "LogFile_read f dk 4 = (Inr b1, w1, d1)"
    using assms by (cases x1) (simp_all add: d)
  obtain x2 w2 d2 where e2: "LogFile_read w1 d1 4 = (x2, w2, d2)"
    by (cases "LogFile_read w1 d1 4")
  then obtain b2 where r2: "LogFile_read w1 d1 4 = (Inr b2, w2, d2)"
    using assms r1 by (cases x2) (simp_all add: d)
  obtain hf where hf: "GetTableInfoId (catalog w2) (sint (le_word b1 :: 32 word)) = Inr hf"
    using assms r1 r2
    by (cases "GetTableInfoId (catalog w2) (sint (le_word b1 :: 32 word))") (simp_all add: d)
  obtain pg0 where
    nh: "newHeapPage sl (td hf) (sint (le_word b2 :: 32 word)) (backingFile hf) = Some pg0"
    using assms r1 r2 hf
    by (cases "newHeapPage sl (td hf) (sint (le_word b2 :: 32 word)) (backingFile hf)")
      (simp_all add: d)
  obtain x3 w3 d3 where e3: "LogFile_read w2 d2 (nat PageSize) = (x3, w3, d3)"
    by (cases "LogFile_read w2 d2 (nat PageSize)")
  then obtain b3 where r3: "LogFile_read w2 d2 (nat PageSize) = (Inr b3, w3, d3)"
    using assms r1 r2 hf nh by (cases x3) (simp_all add: d)
  have ib: "initFromBuffer sl pg0 b3 = Some (Inr pg)" and eq: "f1 = w3" "dk1 = d3"
    using assms r1 r2 hf nh r3 by (auto simp: d split: option.splits sum.splits)
  show "fileName (lfile f1) = fileName (lfile f)"
    using LogFile_read_remaining(1) [OF r1] LogFile_read_remaining(1) [OF r2]
      LogFile_read_remaining(1) [OF r3] eq by simp
  show "remaining f1 dk1 \<le> remaining f dk"
    using LogFile_read_remaining(2) [OF r1] LogFile_read_remaining(2) [OF r2]
      LogFile_read_remaining(2) [OF r3] eq by simp
  have "pageNo pg = sint (le_word b2 :: 32 word)"
    using initFromBuffer_fields(1) [OF ib] newHeapPage_fields(4) [OF nh] by simp
  then show "pageNo pg < 2 ^ 31"
    using sint_lt [of "le_word b2 :: 32 word"] by simp
qed

lemma readRecordOffset_remaining:
  assumes "readRecordOffset ret f dk = (Inr (Some r), f1, dk1)"
  shows "r = ret" "fileName (lfile f1) = fileName (lfile f)" "remaining f1 dk1 \<le> remaining f dk"
  using assms LogFile_read_remaining [of f dk 8]
  by (auto simp: readRecordOffset_def split: prod.splits sum.splits if_splits)

lemma ForwardIterator_pull_remaining:
  assumes "ForwardIterator_pull sl f dk = Some (Inr (Some r), f1, dk1)"
  shows "fileName (lfile f1) = fileName (lfile f) \<and> remaining f1 dk1 < remaining f dk
    \<and> (\<forall>off typ tid before after. r = UpdateLogRecord off typ tid before after
          \<longrightarrow> pageNo after < 2 ^ 31)"
proof -
  from assms obtain b1 w1 d1 t w2 d2 where
    r1: "LogFile_read f dk 1 = (Inr b1, w1, d1)" and
    r2: "readTransactionID w1 d1 = (Inr t, w2, d2)"
    by (auto simp: ForwardIterator_pull_def Let_def split: prod.splits sum.splits if_splits)
  note a = LogFile_read_remaining [OF r1] readTransactionID_remaining [OF r2]
  show ?thesis
  proof (cases "(le_word b1 :: 8 word) = UpdateRecord")
    case False
    then have "readRecordOffset (GenericLogRecord (offset f) (le_word b1) t) w2 d2
        = (Inr (Some r), f1, dk1)"
      using assms r1 r2 by (simp add: ForwardIterator_pull_def Let_def)
    from readRecordOffset_remaining [OF this] a show ?thesis by auto
  next
    case True
    then obtain pb w3 d3 pa w4 d4 where
      p1: "LogFile_readPage sl w2 d2 = Some (Inr pb, w3, d3)" and
      p2: "LogFile_readPage sl w3 d3 = Some (Inr pa, w4, d4)" and
      ro: "readRecordOffset (UpdateLogRecord (offset f) (le_word b1) t pb pa) w4 d4
        = (Inr (Some r), f1, dk1)"
      using assms r1 r2
      by (auto simp: ForwardIterator_pull_def Let_def split: prod.splits sum.splits option.splits)
    from readRecordOffset_remaining [OF ro] LogFile_readPage_remaining [OF p1]
      LogFile_readPage_remaining [OF p2] a
    show ?thesis by auto
  qed
qed

lemma flushPage_length:
  assumes "flushPage sl fn dk pg = (None, dk1)" "pageNo pg < 2 ^ 31"
  shows "max (length (dk1 nm)) (2 ^ 43) = max (length (dk nm)) (2 ^ 43)"
proof -
  from assms(1) obtain bs where tb: "toBuffer sl pg = Inr bs"
    and nn: "\<not> pageNo pg * PageSize < 0"
    and dk1: "dk1 = dk(fn := writeAt (dk fn) (nat (pageNo pg * PageSize)) bs)"
    by (auto simp: flushPage_def split: sum.splits if_splits)
  have "pageNo pg * 4096 + 4096 \<le> 2 ^ 43" using assms(2) by simp
  then have "nat (pageNo pg * PageSize) + length bs \<le> 2 ^ 43"
    using length_toBuffer [OF tb] nn by (simp add: PageSize_def nat_le_iff)
  then show ?thesis by (auto simp: dk1 length_writeAt)
qed

lemma redo_round_remaining:
  assumes "ForwardIterator_pull sl f dk = Some (Inr (Some r), f1, dk1)"
    and "redoBody sl bp dk1 losers r = Some (None, bp2, dk2, losers2)"
  shows "remaining f1 dk2 < remaining f dk"
proof -
  note p = ForwardIterator_pull_remaining [OF assms(1)]
  have "max (length (dk2 nm)) (2 ^ 43) = max (length (dk1 nm)) (2 ^ 43)" for nm
    using assms(2) p flushPage_length [of sl _ dk1 _ dk2 nm]
    by (auto simp: redoBody_def Let_def split: if_splits LogRecord.splits prod.splits option.splits)
  then have "remaining f1 dk2 = remaining f1 dk1" by (simp add: remaining_def)
  then show ?thesis using p by simp
qed

termination redoLoop
  by (relation "measure (\<lambda>(sl, bp, f, dk, losers). remaining f dk)")
    (auto intro: redo_round_remaining)

section \<open>Reading the records of a log file\<close>

declare redoLoop.simps [simp del]

lemma sint_of_nat_64: "p < 2 ^ 63 \<Longrightarrow> sint (of_nat p :: 64 word) = int p"
  by (simp add: signed_of_nat signed_take_bit_int_eq_self)

lemma logAt_simps [simp]:
  "lfile (logAt f p) = (lfile f)\<lparr>position := p\<rparr>" "buf (logAt f p) = []"
  "offset (logAt f p) = of_nat p" "catalog (logAt f p) = catalog f"
  "logAt (logAt f p) q = logAt f q"
  by (simp_all add: logAt_def)

lemma logAt_update:
  "w = of_nat q \<Longrightarrow> (logAt f p)\<lparr>lfile := (lfile f)\<lparr>position := q\<rparr>, offset := w\<rparr> = logAt f q"
  by (simp add: logAt_def)

lemma Force_logAt: "Force (logAt f p) dk = (None, logAt f p, dk)"
  by (simp add: Force_def)

lemma LogFile_read_logAt:
  assumes "\<not> closed (lfile f)" "dk (fileName (lfile f)) = pre @ bs @ post" "bs \<noteq> []"
    and "q = length pre" "n = length bs"
  shows "LogFile_read (logAt f q) dk n = (Inr bs, logAt f (length pre + length bs), dk)"
proof -
  have "readFull ((lfile f)\<lparr>position := q\<rparr>) dk n = (Inr bs, (lfile f)\<lparr>position := q + n\<rparr>)"
    using assms by (auto simp: readFull_def)
  then show ?thesis
    using assms(4,5) by (simp add: LogFile_read_def Force_logAt logAt_update)
qed

lemma LogFile_read_logAt_EOF:
  assumes "\<not> closed (lfile f)" "length (dk (fileName (lfile f))) \<le> p" "0 < n"
  shows "LogFile_read (logAt f p) dk n = (Inl (IOError ''EOF''), logAt f p, dk)"
proof -
  have "readFull ((lfile f)\<lparr>position := p\<rparr>) dk n = (Inl (IOError ''EOF''), (lfile f)\<lparr>position := p\<rparr>)"
    using assms by (auto simp: readFull_def)
  then show ?thesis
    by (simp add: LogFile_read_def Force_logAt logAt_update)
qed

lemma LogFile_seek_logAt:
  assumes "\<not> closed (lfile f)"
  shows "0 \<le> off \<Longrightarrow> LogFile_seek (logAt f p) dk off SeekStart = (None, logAt f (nat off), dk)"
    "LogFile_seek (logAt f p) dk 0 SeekEnd = (None, logAt f (length (dk (fileName (lfile f)))), dk)"
    "8 \<le> p \<Longrightarrow> LogFile_seek (logAt f p) dk (- 8) SeekCurrent = (None, logAt f (p - 8), dk)"
  using assms by (simp_all add: LogFile_seek_def Force_logAt file_Seek_def logAt_update nat_diff_distrib)

lemma length_recordBytes [simp]: "length (recordBytes typ tid off) = 13"
  by (simp add: recordBytes_def length_le_bytes)

lemma le_word_byte: "le_word (le_bytes (Suc 0) (w :: 8 word)) = w"
  by (simp add: le_word_le_bytes take_bit_word_eq_self)

lemma le_bytes_nonempty: "0 < n \<Longrightarrow> le_bytes n w \<noteq> []"
  using length_le_bytes [of n w] by auto

lemma pull_generic:
  assumes nc: "\<not> closed (lfile f)"
    and dk: "dk (fileName (lfile f)) = pre @ recordBytes rt tid (of_nat p) @ post"
    and p: "length pre = p" and ty: "rt \<noteq> UpdateRecord"
  shows "ForwardIterator_pull sl (logAt f p) dk =
    Some (Inr (Some (GenericLogRecord (of_nat p) rt (sint (word_of_int tid :: 32 word)))),
      logAt f (p + 13), dk)"
proof -
  let ?t = "le_bytes 4 (word_of_int tid :: 32 word)" and ?o = "le_bytes 8 (of_nat p :: 64 word)"
  note s = dk p recordBytes_def length_le_bytes le_bytes_nonempty
  have 1: "LogFile_read (logAt f q) dk n = (Inr (le_bytes 1 rt), logAt f (p + 1), dk)"
    if "q = p" "n = Suc 0" for q n
    using LogFile_read_logAt [OF nc, where pre = pre and bs = "le_bytes 1 rt"
        and post = "?t @ ?o @ post" and q = q and n = n] that
    by (simp add: s)
  have 2: "LogFile_read (logAt f q) dk n = (Inr ?t, logAt f (p + 5), dk)"
    if "q = p + 1" "n = 4" for q n
    using LogFile_read_logAt [OF nc, where pre = "pre @ le_bytes 1 rt" and bs = ?t
        and post = "?o @ post" and q = q and n = n] that
    by (simp add: s)
  have 3: "LogFile_read (logAt f q) dk n = (Inr ?o, logAt f (p + 13), dk)"
    if "q = p + 5" "n = 8" for q n
    using LogFile_read_logAt [OF nc, where pre = "pre @ le_bytes 1 rt @ ?t" and bs = ?o
        and post = post and q = q and n = n] that
    by (simp add: s)
  show ?thesis
    using ty
    by (simp add: ForwardIterator_pull_def Let_def 1 readTransactionID_def 2 readRecordOffset_def 3
        le_word_byte le_word_le_bytes_32 le_word_le_bytes_64)
qed

lemma pull_EOF:
  assumes "\<not> closed (lfile f)" "length (dk (fileName (lfile f))) \<le> p"
  shows "ForwardIterator_pull sl (logAt f p) dk = Some (Inr None, logAt f p, dk)"
  using LogFile_read_logAt_EOF [where f = f and dk = dk and p = p and n = "Suc 0"] assms
  by (simp add: ForwardIterator_pull_def)

lemma length_pageBytes [simp]: "length (pageBytes fid pno img) = 8 + length img"
  by (simp add: pageBytes_def length_le_bytes)

lemma LogFile_readPage_logAt:
  assumes nc: "\<not> closed (lfile f)"
    and dk: "dk (fileName (lfile f)) = pre @ pageBytes fid pno img @ post"
    and p: "length pre = p" and img: "length img = 4096"
    and cat: "GetTableInfoId (catalog f) (sint (word_of_int fid :: 32 word)) = Inr hf"
    and nh: "newHeapPage sl (td hf) (sint (word_of_int pno :: 32 word)) (backingFile hf) = Some pg0"
    and ib: "initFromBuffer sl pg0 img = Some (Inr pg)"
  shows "LogFile_readPage sl (logAt f p) dk = Some (Inr pg, logAt f (p + 4104), dk)"
proof -
  let ?a = "le_bytes 4 (word_of_int fid :: 32 word)" and ?b = "le_bytes 4 (word_of_int pno :: 32 word)"
  note s = dk p pageBytes_def length_le_bytes le_bytes_nonempty img
  have 1: "LogFile_read (logAt f q) dk n = (Inr ?a, logAt f (p + 4), dk)"
    if "q = p" "n = 4" for q n
    using LogFile_read_logAt [OF nc, where pre = pre and bs = ?a
        and post = "?b @ img @ post" and q = q and n = n] that
    by (simp add: s)
  have 2: "LogFile_read (logAt f q) dk n = (Inr ?b, logAt f (p + 8), dk)"
    if "q = p + 4" "n = 4" for q n
    using LogFile_read_logAt [OF nc, where pre = "pre @ ?a" and bs = ?b
        and post = "img @ post" and q = q and n = n] that
    by (simp add: s)
  have ne: "img \<noteq> []" using img by auto
  have 3: "LogFile_read (logAt f q) dk n = (Inr img, logAt f (p + 4104), dk)"
    if "q = p + 8" "n = 4096" for q n
    using LogFile_read_logAt [OF nc, where pre = "pre @ ?a @ ?b" and bs = img
        and post = post and q = q and n = n] that ne
    by (simp add: s)
  show ?thesis
    by (simp add: LogFile_readPage_def 1 2 3 cat nh ib PageSize_def le_word_le_bytes_32)
qed

lemma pull_update:
  assumes nc: "\<not> closed (lfile f)"
    and dk: "dk (fileName (lfile f)) =
      pre @ updateBytes tid (of_nat p) (pageBytes fida pnoa imga) (pageBytes fidb pnob imgb) @ post"
    and p: "length pre = p" and img: "length imga = 4096" "length imgb = 4096"
    and cat: "GetTableInfoId (catalog f) (sint (word_of_int fida :: 32 word)) = Inr hfa"
      "GetTableInfoId (catalog f) (sint (word_of_int fidb :: 32 word)) = Inr hfb"
    and nh: "newHeapPage sl (td hfa) (sint (word_of_int pnoa :: 32 word)) (backingFile hfa) = Some pga"
      "newHeapPage sl (td hfb) (sint (word_of_int pnob :: 32 word)) (backingFile hfb) = Some pgb"
    and ib: "initFromBuffer sl pga imga = Some (Inr before)"
      "initFromBuffer sl pgb imgb = Some (Inr after)"
  shows "ForwardIterator_pull sl (logAt f p) dk =
    Some (Inr (Some (UpdateLogRecord (of_nat p) UpdateRecord (sint (word_of_int tid :: 32 word))
      before after)), logAt f (p + 8221), dk)"
proof -
  let ?t = "le_bytes 4 (word_of_int tid :: 32 word)" and ?o = "le_bytes 8 (of_nat p :: 64 word)"
  let ?u = "le_bytes 1 UpdateRecord"
  let ?p1 = "pageBytes fida pnoa imga" and ?p2 = "pageBytes fidb pnob imgb"
  note s = dk p updateBytes_def length_le_bytes le_bytes_nonempty img
  have 1: "LogFile_read (logAt f q) dk n = (Inr ?u, logAt f (p + 1), dk)"
    if "q = p" "n = Suc 0" for q n
    using LogFile_read_logAt [OF nc, where pre = pre and bs = ?u
        and post = "?t @ ?p1 @ ?p2 @ ?o @ post" and q = q and n = n] that
    by (simp add: s)
  have 2: "LogFile_read (logAt f q) dk n = (Inr ?t, logAt f (p + 5), dk)"
    if "q = p + 1" "n = 4" for q n
    using LogFile_read_logAt [OF nc, where pre = "pre @ ?u" and bs = ?t
        and post = "?p1 @ ?p2 @ ?o @ post" and q = q and n = n] that
    by (simp add: s)
  have 3: "LogFile_readPage sl (logAt f q) dk = Some (Inr before, logAt f (p + 4109), dk)"
    if "q = p + 5" for q
    using LogFile_readPage_logAt [OF nc _ _ img(1) cat(1) nh(1) ib(1),
          where pre = "pre @ ?u @ ?t" and post = "?p2 @ ?o @ post" and p = q] that
    by (simp add: s)
  have 4: "LogFile_readPage sl (logAt f q) dk = Some (Inr after, logAt f (p + 8213), dk)"
    if "q = p + 4109" for q
    using LogFile_readPage_logAt [OF nc _ _ img(2) cat(2) nh(2) ib(2),
          where pre = "pre @ ?u @ ?t @ ?p1" and post = "?o @ post" and p = q] that
    by (simp add: s)
  have 5: "LogFile_read (logAt f q) dk n = (Inr ?o, logAt f (p + 8221), dk)"
    if "q = p + 8213" "n = 8" for q n
    using LogFile_read_logAt [OF nc, where pre = "pre @ ?u @ ?t @ ?p1 @ ?p2" and bs = ?o
        and post = post and q = q and n = n] that
    by (simp add: s)
  show ?thesis
    by (simp add: ForwardIterator_pull_def Let_def 1 readTransactionID_def 2 3 4
        readRecordOffset_def 5 le_word_byte le_word_le_bytes_32 le_word_le_bytes_64)
qed

lemma reverse_pull:
  assumes nc: "\<not> closed (lfile f)"
    and dk: "dk (fileName (lfile f)) = pre @ body @ le_bytes 8 (of_nat p :: 64 word) @ post"
    and p: "length pre = p" and q: "q = p + length body + 8" "q < 2 ^ 63"
    and fwd: "ForwardIterator_pull sl (logAt f p) dk = Some (Inr r, logAt f q', dk)"
  shows "ReverseIterator_pull sl (logAt f q) dk = Some (Inr r, logAt f p, dk)"
proof -
  have "p < 2 ^ 63" using q by simp
  then have sp: "sint (of_nat p :: 64 word) = int p" by (rule sint_of_nat_64)
  have sq: "sint (of_nat q :: 64 word) = int q" using q(2) by (rule sint_of_nat_64)
  have 1: "LogFile_seek (logAt f q) dk (- 8) SeekCurrent = (None, logAt f (q - 8), dk)"
    using q by (intro LogFile_seek_logAt(3) [OF nc]) simp
  have 2: "LogFile_read (logAt f x) dk n
      = (Inr (le_bytes 8 (of_nat p :: 64 word)), logAt f q, dk)"
    if "x = q - 8" "n = 8" for x n
    using LogFile_read_logAt [OF nc, where pre = "pre @ body"
        and bs = "le_bytes 8 (of_nat p :: 64 word)" and post = post and q = x and n = n] that
    by (simp add: dk p q length_le_bytes le_bytes_nonempty)
  have 3: "LogFile_seek (logAt f p') dk (int p) SeekStart = (None, logAt f p, dk)" for p'
    using LogFile_seek_logAt(1) [OF nc, of "int p" p' dk] by simp
  have ge: "\<not> q < 8" using q by simp
  show ?thesis
    by (simp add: ReverseIterator_pull_def sq ge 1 2 le_word_le_bytes_64 sp 3 fwd)
qed

lemma reverse_pull_start:
  "p < 8 \<Longrightarrow> ReverseIterator_pull sl (logAt f p) dk = Some (Inr None, logAt f p, dk)"
  by (simp add: ReverseIterator_pull_def sint_of_nat_64)

lemma Force_LogAbort:
  assumes nc: "\<not> closed (lfile f)" and len: "length (dk (fileName (lfile f))) = p"
  shows "Force (LogAbort (logAt f p) tid) dk =
    (None, logAt f (p + 13),
     dk(fileName (lfile f) := dk (fileName (lfile f)) @ recordBytes AbortRecord tid (of_nat p)))"
proof -
  have "LogAbort (logAt f p) tid = (logAt f p)\<lparr>buf := recordBytes AbortRecord tid (of_nat p),
      offset := of_nat (p + 13)\<rparr>"
    by (simp add: LogAbort_def writeHeader_def LogFile_write_def recordBytes_def length_le_bytes)
  moreover have "recordBytes AbortRecord tid (of_nat p :: 64 word) \<noteq> []"
    by (simp add: recordBytes_def le_bytes_def)
  ultimately show ?thesis
    using assms
    by (simp add: Force_def file_Write_def file_Sync_def writeAt_def logAt_def)
qed

lemma undoBody_Begin:
  assumes nc: "\<not> closed (lfile f)" and p: "p < 2 ^ 63"
    and loser: "map_of losers (Tid rcd) = Some x" and ty: "Type rcd = BeginRecord"
  shows "undoBody sl bp (logAt f p) dk losers rcd =
    Some (None, bp, logAt f p,
      dk(fileName (lfile f) := dk (fileName (lfile f))
           @ recordBytes AbortRecord (Tid rcd) (of_nat (length (dk (fileName (lfile f)))))),
      AList.delete (Tid rcd) losers)"
proof -
  let ?dk = "dk(fileName (lfile f) := dk (fileName (lfile f))
           @ recordBytes AbortRecord (Tid rcd) (of_nat (length (dk (fileName (lfile f))))))"
  have "LogFile_seek (logAt f p') ?dk (int p) SeekStart = (None, logAt f p, ?dk)" for p'
    using LogFile_seek_logAt(1) [OF nc, of "int p" p' ?dk] by simp
  then show ?thesis
    using ty
    by (simp add: undoBody_def loser BeginRecord_def UpdateRecord_def LogFile_seek_logAt(2) [OF nc]
        Force_LogAbort [OF nc] sint_of_nat_64 [OF p])
qed

lemma undoBody_skip:
  assumes "Type rcd \<noteq> BeginRecord" "Type rcd \<noteq> UpdateRecord"
  shows "undoBody sl bp f dk losers rcd = Some (None, bp, f, dk, losers)"
  using assms by (simp add: undoBody_def split: option.splits)

lemma undoBody_Update:
  assumes loser: "map_of losers tid = Some x"
    and fl: "flushPage sl (hfile before) dk before = (None, dk')"
  shows "undoBody sl bp f dk losers (UpdateLogRecord off UpdateRecord tid before after) =
    Some (None, bp\<lparr>pages := fmdrop (hfile before, pageNo before) (pages bp)\<rparr>, f, dk', losers)"
  by (simp add: undoBody_def loser fl)

section \<open>Recovery and aborted transactions\<close>

lemma toBuffer_exOnePage: "toBuffer 32 exOnePage = Inr exOneImage"
  by (simp add: toBuffer_def exOnePage_def exCleanPage_def exDirtyPage_def exTuple_def writeTo_def
      writeField_def concat_empty_slots length_le_bytes PageSize_def exOneImage_def)

lemma toBuffer_exCleanPage: "toBuffer 32 exCleanPage = Inr (emptyImage 511)"
  using toBuffer_no_tuples [of exCleanPage 511 32]
  by (simp add: exCleanPage_def exDirtyPage_def emptyImage_def)

lemma length_images: "length exOneImage = 4096" "length (emptyImage ns) = 4096"
  by (simp_all add: exOneImage_def emptyImage_def length_le_bytes)

lemma ex_page_fields:
  "hfile exOnePage = ''t.dat''" "pageNo exOnePage = 0" "hfile exCleanPage = ''t.dat''"
  "pageNo exCleanPage = 0"
  by (simp_all add: exOnePage_def exCleanPage_def exDirtyPage_def)

lemma flush_examples:
  assumes "length (dk ''t.dat'') \<le> 4096"
  shows "flushPage 32 ''t.dat'' dk exOnePage = (None, dk(''t.dat'' := exOneImage))"
    "flushPage 32 ''t.dat'' dk exCleanPage = (None, dk(''t.dat'' := emptyImage 511))"
  using assms
  by (simp_all add: flushPage_def toBuffer_exOnePage toBuffer_exCleanPage ex_page_fields
      writeAt_def length_images)

lemma newHeapPage_exFile: "newHeapPage 32 (td exFile) 0 (backingFile exFile) = Some exCleanPage"
  by (simp add: newHeapPage_def exFile_def ageDesc_def bytesPerTuple_def fieldSize_def PageSize_def
      exCleanPage_def exDirtyPage_def)

lemma initFromBuffer_images:
  "initFromBuffer 32 exCleanPage (emptyImage 511) = Some (Inr exCleanPage)"
  "initFromBuffer 32 exCleanPage exOneImage = Some (Inr exOnePage)"
proof -
  show "initFromBuffer 32 exCleanPage (emptyImage 511) = Some (Inr exCleanPage)"
    using initFromBuffer_no_tuples [of 511 32 exCleanPage "replicate 4088 0"]
    by (simp add: emptyImage_def exCleanPage_def exDirtyPage_def)
  have "readTupleFrom 32 ageDesc (le_bytes 8 (7 :: 64 word) @ replicate 4080 0)
      = Inr (exTuple, replicate 4080 0)"
    by (simp add: readTupleFrom_def ageDesc_def length_le_bytes le_word_le_bytes_64 exTuple_def)
  moreover have "replicate 511 (None :: Tuple option) = None # replicate 510 None"
    using replicate_Suc [of 510 "None :: Tuple option"] by simp
  ultimately show "initFromBuffer 32 exCleanPage exOneImage = Some (Inr exOnePage)"
    by (simp add: initFromBuffer_def exOneImage_def readInt32_le_bytes exCleanPage_def
        exDirtyPage_def exOnePage_def exTuple_def)
qed

lemma exLogFile_fields:
  "\<not> closed (lfile exLogFile)" "fileName (lfile exLogFile) = ''test.log''"
  "catalog exLogFile = exCatalog" "logAt exLogFile 0 = exLogFile"
  by (simp_all add: exLogFile_def NewLogFile_def logAt_def)

lemma pull_ex:
  assumes "dk ''test.log'' = pre @ recordBytes rt 1 (of_nat (length pre)) @ post"
    and "rt \<noteq> UpdateRecord"
  shows "ForwardIterator_pull 32 (logAt exLogFile (length pre)) dk =
    Some (Inr (Some (GenericLogRecord (of_nat (length pre)) rt 1)),
      logAt exLogFile (length pre + 13), dk)"
  using pull_generic [where f = exLogFile and dk = dk and pre = pre and rt = rt and tid = 1
      and p = "length pre" and post = post and sl = 32] assms
  by (simp add: exLogFile_fields)

lemma reverse_ex:
  assumes "dk ''test.log'' = pre @ recordBytes rt 1 (of_nat (length pre)) @ post"
    and "rt \<noteq> UpdateRecord" and "length pre + 13 < 2 ^ 63"
  shows "ReverseIterator_pull 32 (logAt exLogFile (length pre + 13)) dk =
    Some (Inr (Some (GenericLogRecord (of_nat (length pre)) rt 1)), logAt exLogFile (length pre), dk)"
  using reverse_pull [where f = exLogFile and dk = dk and pre = pre
      and body = "le_bytes 1 rt @ le_bytes 4 (1 :: 32 word)" and p = "length pre" and post = post
      and q = "length pre + 13" and q' = "length pre + 13" and sl = 32
      and r = "Some (GenericLogRecord (of_nat (length pre)) rt 1)"]
    pull_ex [where dk = dk and pre = pre and rt = rt and post = post, OF assms(1,2)] assms
  by (simp add: exLogFile_fields recordBytes_def length_le_bytes)

lemma ex_lengths [simp]:
  "length exBegin = 13" "length (exAbort off) = 13" "length (exCommit off) = 13"
  "length exUpdate = 8221"
  by (simp_all add: exBegin_def exAbort_def exCommit_def exUpdate_def updateBytes_def
      length_le_bytes length_images)

lemma types_differ:
  "BeginRecord \<noteq> UpdateRecord" "AbortRecord \<noteq> UpdateRecord" "CommitRecord \<noteq> UpdateRecord"
  "AbortRecord \<noteq> BeginRecord" "CommitRecord \<noteq> BeginRecord" "CommitRecord \<noteq> AbortRecord"
  "UpdateRecord \<noteq> BeginRecord" "UpdateRecord \<noteq> AbortRecord" "UpdateRecord \<noteq> CommitRecord"
  "BeginRecord \<noteq> AbortRecord" "BeginRecord \<noteq> CommitRecord" "AbortRecord \<noteq> CommitRecord"
  by (simp_all add: BeginRecord_def UpdateRecord_def AbortRecord_def CommitRecord_def)

lemma write_exBegin:
  "Force (LogBegin exLogFile 1) emptyDisk =
     (None, logAt exLogFile 13, emptyDisk(''test.log'' := exBegin))"
  by (simp add: LogBegin_def writeFooter_def writeHeader_def LogFile_write_def Force_def
      file_Write_def file_Sync_def exLogFile_def NewLogFile_def logAt_def exBegin_def
      recordBytes_def writeAt_def emptyDisk_def length_le_bytes le_bytes_nonempty)

lemma Recover_exBegin:
  "Recover (Suc (Suc n)) 32 (exEmptyPool 2) (logAt exLogFile 13) (emptyDisk(''test.log'' := exBegin))
     = Some (None, exEmptyPool 2, logAt exLogFile 26,
         emptyDisk(''test.log'' := exBegin @ exAbort 13))"
proof -
  let ?dk = "emptyDisk(''test.log'' := exBegin)"
  let ?dk2 = "emptyDisk(''test.log'' := exBegin @ exAbort 13)"
  let ?b = "GenericLogRecord 0 BeginRecord 1"
  note f = exLogFile_fields
  have dk: "?dk ''test.log'' = [] @ recordBytes BeginRecord 1 (of_nat (length ([] :: byte list))) @ []"
    by (simp add: exBegin_def)
  have p0: "ForwardIterator_pull 32 (logAt exLogFile 0) ?dk = Some (Inr (Some ?b), logAt exLogFile 13, ?dk)"
    using pull_ex [where dk = ?dk and pre = "[]" and post = "[]", OF dk types_differ(1)] by simp
  have p1: "ForwardIterator_pull 32 (logAt exLogFile 13) ?dk = Some (Inr None, logAt exLogFile 13, ?dk)"
    by (rule pull_EOF) (simp_all add: f)
  have redo: "redoLoop 32 (exEmptyPool 2) (logAt exLogFile 0) ?dk []
      = Some (Inr [(1, 0)], exEmptyPool 2, logAt exLogFile 13, ?dk)"
    by (simp add: redoLoop.simps [of _ _ "logAt exLogFile 0"] p0 redoBody_def
        redoLoop.simps [of _ _ "logAt exLogFile 13"] p1)
  have r0: "ReverseIterator_pull 32 (logAt exLogFile 13) ?dk = Some (Inr (Some ?b), logAt exLogFile 0, ?dk)"
    using reverse_ex [where dk = ?dk and pre = "[]" and post = "[]", OF dk types_differ(1)] by simp
  have ub: "undoBody 32 (exEmptyPool 2) (logAt exLogFile 0) ?dk [(1, 0)] ?b
      = Some (None, exEmptyPool 2, logAt exLogFile 0, ?dk2, [])"
    using undoBody_Begin [where f = exLogFile and p = 0 and losers = "[(1, 0)]" and rcd = ?b
        and x = 0 and sl = 32 and bp = "exEmptyPool 2" and dk = ?dk]
    by (simp add: f exAbort_def)
  have r1: "ReverseIterator_pull 32 (logAt exLogFile 0) ?dk2 = Some (Inr None, logAt exLogFile 0, ?dk2)"
    by (rule reverse_pull_start) simp
  show ?thesis
    by (simp add: Recover_def LogFile_seek_logAt [OF f(1)] f(1-3) redo ReverseIterator_def r0 ub r1)
qed

lemma Recover_exBegin_exAbort:
  "Recover (Suc (Suc (Suc n))) 32 (exEmptyPool 2) (logAt exLogFile 26)
       (emptyDisk(''test.log'' := exBegin @ exAbort 13))
     = Some (None, exEmptyPool 2, logAt exLogFile 39,
         emptyDisk(''test.log'' := exBegin @ exAbort 13 @ exAbort 26))"
proof -
  let ?dk = "emptyDisk(''test.log'' := exBegin @ exAbort 13)"
  let ?dk2 = "emptyDisk(''test.log'' := exBegin @ exAbort 13 @ exAbort 26)"
  let ?b = "GenericLogRecord 0 BeginRecord 1" and ?a = "GenericLogRecord 13 AbortRecord 1"
  note f = exLogFile_fields
  have dk0: "?dk ''test.log'' = [] @ recordBytes BeginRecord 1 (of_nat (length ([] :: byte list)))
      @ exAbort 13"
    by (simp add: exBegin_def)
  have dk1: "?dk ''test.log'' = exBegin @ recordBytes AbortRecord 1 (of_nat (length exBegin)) @ []"
    by (simp add: exAbort_def)
  have p0: "ForwardIterator_pull 32 (logAt exLogFile 0) ?dk = Some (Inr (Some ?b), logAt exLogFile 13, ?dk)"
    using pull_ex [where dk = ?dk and pre = "[]" and post = "exAbort 13", OF dk0 types_differ(1)]
    by simp
  have p1: "ForwardIterator_pull 32 (logAt exLogFile 13) ?dk = Some (Inr (Some ?a), logAt exLogFile 26, ?dk)"
    using pull_ex [where dk = ?dk and pre = exBegin and post = "[]", OF dk1 types_differ(2)]
    by simp
  have p2: "ForwardIterator_pull 32 (logAt exLogFile 26) ?dk = Some (Inr None, logAt exLogFile 26, ?dk)"
    by (rule pull_EOF) (simp_all add: f)
  have redo: "redoLoop 32 (exEmptyPool 2) (logAt exLogFile 0) ?dk []
      = Some (Inr [(1, 0)], exEmptyPool 2, logAt exLogFile 26, ?dk)"
    by (simp add: redoLoop.simps [of _ _ "logAt exLogFile 0"] p0 redoBody_def types_differ
        redoLoop.simps [of _ _ "logAt exLogFile 13"] p1
        redoLoop.simps [of _ _ "logAt exLogFile 26"] p2)
  have r0: "ReverseIterator_pull 32 (logAt exLogFile 26) ?dk = Some (Inr (Some ?a), logAt exLogFile 13, ?dk)"
    using reverse_ex [where dk = ?dk and pre = exBegin and post = "[]", OF dk1 types_differ(2)]
    by simp
  have ua: "undoBody 32 (exEmptyPool 2) (logAt exLogFile 13) ?dk [(1, 0)] ?a
      = Some (None, exEmptyPool 2, logAt exLogFile 13, ?dk, [(1, 0)])"
    by (rule undoBody_skip) (simp_all add: types_differ)
  have r1: "ReverseIterator_pull 32 (logAt exLogFile 13) ?dk = Some (Inr (Some ?b), logAt exLogFile 0, ?dk)"
    using reverse_ex [where dk = ?dk and pre = "[]" and post = "exAbort 13", OF dk0 types_differ(1)]
    by simp
  have ub: "undoBody 32 (exEmptyPool 2) (logAt exLogFile 0) ?dk [(1, 0)] ?b
      = Some (None, exEmptyPool 2, logAt exLogFile 0, ?dk2, [])"
    using undoBody_Begin [where f = exLogFile and p = 0 and losers = "[(1, 0)]" and rcd = ?b
        and x = 0 and sl = 32 and bp = "exEmptyPool 2" and dk = ?dk]
    by (simp add: f exAbort_def)
  have r2: "ReverseIterator_pull 32 (logAt exLogFile 0) ?dk2 = Some (Inr None, logAt exLogFile 0, ?dk2)"
    by (rule reverse_pull_start) simp
  show ?thesis
    by (simp add: Recover_def LogFile_seek_logAt [OF f(1)] f(1-3) redo ReverseIterator_def r0 ua r1
        ub r2)
qed

lemma write_exUpdate:
  "Force (LogAbort (snd (LogUpdate 32 (LogBegin exLogFile 1) 1 (Some exCleanPage) (Some exOnePage))) 1)
       emptyDisk =
     (None, logAt exLogFile 8247, emptyDisk(''test.log'' := exBegin @ exUpdate @ exAbort 8234))"
  by (simp add: LogBegin_def LogUpdate_def LogAbort_def LogFile_writePage_def writeFooter_def
      writeHeader_def LogFile_write_def Force_def file_Write_def file_Sync_def exLogFile_def
      NewLogFile_def logAt_def exBegin_def exUpdate_def exAbort_def recordBytes_def updateBytes_def
      pageBytes_def writeAt_def emptyDisk_def length_le_bytes le_bytes_nonempty exCatalog_def
      ex_page_fields toBuffer_exOnePage toBuffer_exCleanPage length_images Let_def)

lemma write_exCommit:
  "Force (LogCommit (LogBegin exLogFile 1) 1) emptyDisk =
     (None, logAt exLogFile 26, emptyDisk(''test.log'' := exBegin @ exCommit 13))"
  by (simp add: LogBegin_def LogCommit_def writeFooter_def writeHeader_def LogFile_write_def
      Force_def file_Write_def file_Sync_def exLogFile_def NewLogFile_def logAt_def exBegin_def
      exCommit_def recordBytes_def writeAt_def emptyDisk_def length_le_bytes le_bytes_nonempty
      Let_def)

lemma pull_exUpdate:
  assumes "dk ''test.log'' = exBegin @ exUpdate @ post"
  shows "ForwardIterator_pull 32 (logAt exLogFile 13) dk =
    Some (Inr (Some (UpdateLogRecord 13 UpdateRecord 1 exCleanPage exOnePage)),
      logAt exLogFile 8234, dk)"
  using pull_update [where f = exLogFile and dk = dk and pre = exBegin and tid = 1 and p = 13
      and fida = 0 and pnoa = 0 and imga = "emptyImage 511" and fidb = 0 and pnob = 0
      and imgb = exOneImage and post = post and sl = 32 and hfa = exFile and hfb = exFile
      and pga = exCleanPage and pgb = exCleanPage and before = exCleanPage and after = exOnePage]
    assms
  by (simp add: exLogFile_fields exUpdate_def length_images exCatalog_def newHeapPage_exFile
      initFromBuffer_images)

lemma reverse_exUpdate:
  assumes "dk ''test.log'' = exBegin @ exUpdate @ post"
  shows "ReverseIterator_pull 32 (logAt exLogFile 8234) dk =
    Some (Inr (Some (UpdateLogRecord 13 UpdateRecord 1 exCleanPage exOnePage)),
      logAt exLogFile 13, dk)"
  using reverse_pull [where f = exLogFile and dk = dk and pre = exBegin
      and body = "le_bytes 1 UpdateRecord @ le_bytes 4 (1 :: 32 word)
        @ pageBytes 0 0 (emptyImage 511) @ pageBytes 0 0 exOneImage"
      and p = 13 and post = post and q = 8234 and q' = 8234 and sl = 32
      and r = "Some (UpdateLogRecord 13 UpdateRecord 1 exCleanPage exOnePage)"]
    pull_exUpdate [where dk = dk and post = post] assms
  by (simp add: exLogFile_fields exUpdate_def updateBytes_def length_le_bytes length_images)

lemma Recover_exUpdate:
  "redoLoop 32 (exEmptyPool 2) (logAt exLogFile 0)
       (emptyDisk(''test.log'' := exBegin @ exUpdate @ exAbort 8234)) []
     = Some (Inr [(1, 0)], exEmptyPool 2, logAt exLogFile 8247,
         emptyDisk(''test.log'' := exBegin @ exUpdate @ exAbort 8234, ''t.dat'' := exOneImage))"
  "Recover (Suc (Suc (Suc (Suc n)))) 32 (exEmptyPool 2) (logAt exLogFile 8247)
       (emptyDisk(''test.log'' := exBegin @ exUpdate @ exAbort 8234))
     = Some (None, exEmptyPool 2, logAt exLogFile 8260,
         emptyDisk(''t.dat'' := emptyImage 511,
           ''test.log'' := exBegin @ exUpdate @ exAbort 8234 @ exAbort 8247))"
proof -
  let ?lg = "exBegin @ exUpdate @ exAbort 8234"
  let ?dk = "emptyDisk(''test.log'' := ?lg)"
  let ?dk1 = "emptyDisk(''test.log'' := ?lg, ''t.dat'' := exOneImage)"
  let ?dk2 = "emptyDisk(''test.log'' := ?lg, ''t.dat'' := emptyImage 511)"
  let ?dk3 = "emptyDisk(''t.dat'' := emptyImage 511,
      ''test.log'' := exBegin @ exUpdate @ exAbort 8234 @ exAbort 8247)"
  let ?b = "GenericLogRecord 0 BeginRecord 1" and ?a = "GenericLogRecord 8234 AbortRecord 1"
  let ?u = "UpdateLogRecord 13 UpdateRecord 1 exCleanPage exOnePage"
  note f = exLogFile_fields
  have pool: "(exEmptyPool 2)\<lparr>pages := fmdrop (''t.dat'', 0) (pages (exEmptyPool 2))\<rparr> = exEmptyPool 2"
    by (simp add: exEmptyPool_def)
  have p0: "ForwardIterator_pull 32 (logAt exLogFile 0) dk = Some (Inr (Some ?b), logAt exLogFile 13, dk)"
    if "dk ''test.log'' = ?lg" for dk
    using pull_ex [where dk = dk and pre = "[]" and rt = BeginRecord
        and post = "exUpdate @ exAbort 8234"] that types_differ
    by (simp add: exBegin_def)
  have p1: "ForwardIterator_pull 32 (logAt exLogFile 13) dk = Some (Inr (Some ?u), logAt exLogFile 8234, dk)"
    if "dk ''test.log'' = ?lg" for dk
    using pull_exUpdate [where dk = dk and post = "exAbort 8234"] that by simp
  have p2: "ForwardIterator_pull 32 (logAt exLogFile 8234) dk = Some (Inr (Some ?a), logAt exLogFile 8247, dk)"
    if "dk ''test.log'' = ?lg" for dk
    using pull_ex [where dk = dk and pre = "exBegin @ exUpdate" and rt = AbortRecord
        and post = "[]"] that types_differ
    by (simp add: exAbort_def)
  have p3: "ForwardIterator_pull 32 (logAt exLogFile 8247) dk = Some (Inr None, logAt exLogFile 8247, dk)"
    if "dk ''test.log'' = ?lg" for dk
    using that by (intro pull_EOF) (simp_all add: f)
  have fl: "flushPage 32 ''t.dat'' ?dk exOnePage = (None, ?dk1)"
    "flushPage 32 ''t.dat'' ?dk1 exCleanPage = (None, ?dk2)"
    using flush_examples [of ?dk] flush_examples [of ?dk1]
    by (simp_all add: emptyDisk_def length_images)
  show redo: "redoLoop 32 (exEmptyPool 2) (logAt exLogFile 0) ?dk []
      = Some (Inr [(1, 0)], exEmptyPool 2, logAt exLogFile 8247, ?dk1)"
    by (simp add: redoLoop.simps [of _ _ "logAt exLogFile 0"] p0 redoBody_def types_differ
        redoLoop.simps [of _ _ "logAt exLogFile 13"] p1 ex_page_fields fl pool
        redoLoop.simps [of _ _ "logAt exLogFile 8234"] p2
        redoLoop.simps [of _ _ "logAt exLogFile 8247"] p3)
  have r0: "ReverseIterator_pull 32 (logAt exLogFile 8247) dk = Some (Inr (Some ?a), logAt exLogFile 8234, dk)"
    if "dk ''test.log'' = ?lg" for dk
    using reverse_ex [where dk = dk and pre = "exBegin @ exUpdate" and rt = AbortRecord
        and post = "[]"] that types_differ
    by (simp add: exAbort_def)
  have r1: "ReverseIterator_pull 32 (logAt exLogFile 8234) dk = Some (Inr (Some ?u), logAt exLogFile 13, dk)"
    if "dk ''test.log'' = ?lg" for dk
    using reverse_exUpdate [where dk = dk and post = "exAbort 8234"] that by simp
  have r2: "ReverseIterator_pull 32 (logAt exLogFile 13) dk = Some (Inr (Some ?b), logAt exLogFile 0, dk)"
    if "dk ''test.log'' = ?lg" for dk
    using reverse_ex [where dk = dk and pre = "[]" and rt = BeginRecord
        and post = "exUpdate @ exAbort 8234"] that types_differ
    by (simp add: exBegin_def)
  have ua: "undoBody 32 (exEmptyPool 2) (logAt exLogFile 8234) ?dk1 [(1, 0)] ?a
      = Some (None, exEmptyPool 2, logAt exLogFile 8234, ?dk1, [(1, 0)])"
    by (rule undoBody_skip) (simp_all add: types_differ)
  have uu: "undoBody 32 (exEmptyPool 2) (logAt exLogFile 13) ?dk1 [(1, 0)] ?u
      = Some (None, exEmptyPool 2, logAt exLogFile 13, ?dk2, [(1, 0)])"
    using undoBody_Update [where losers = "[(1, 0)]" and tid = 1 and x = 0 and sl = 32
        and before = exCleanPage and dk = ?dk1 and dk' = ?dk2 and bp = "exEmptyPool 2"
        and f = "logAt exLogFile 13" and off = 13 and after = exOnePage]
    by (simp add: ex_page_fields fl pool)
  have d3: "?dk2(''test.log'' := ?lg @ exAbort 8247) = ?dk3"
    by (rule ext) simp
  have ub: "undoBody 32 (exEmptyPool 2) (logAt exLogFile 0) ?dk2 [(1, 0)] ?b
      = Some (None, exEmptyPool 2, logAt exLogFile 0, ?dk3, [])"
    using undoBody_Begin [where f = exLogFile and p = 0 and losers = "[(1, 0)]" and rcd = ?b
        and x = 0 and sl = 32 and bp = "exEmptyPool 2" and dk = ?dk2] d3
    by (simp add: f exAbort_def)
  have r3: "ReverseIterator_pull 32 (logAt exLogFile 0) ?dk3 = Some (Inr None, logAt exLogFile 0, ?dk3)"
    by (rule reverse_pull_start) simp
  show "Recover (Suc (Suc (Suc (Suc n)))) 32 (exEmptyPool 2) (logAt exLogFile 8247) ?dk
      = Some (None, exEmptyPool 2, logAt exLogFile 8260, ?dk3)"
    by (simp add: Recover_def LogFile_seek_logAt [OF f(1)] f(1-3) redo ReverseIterator_def
        r0 ua r1 uu r2 ub r3)
qed

lemma redo_exCommit:
  "redoLoop 32 (exEmptyPool 2) (logAt exLogFile 0) (emptyDisk(''test.log'' := exBegin @ exCommit 13)) []
     = Some (Inr [], exEmptyPool 2, logAt exLogFile 26, emptyDisk(''test.log'' := exBegin @ exCommit 13))"
proof -
  let ?dk = "emptyDisk(''test.log'' := exBegin @ exCommit 13)"
  let ?b = "GenericLogRecord 0 BeginRecord 1" and ?c = "GenericLogRecord 13 CommitRecord 1"
  note f = exLogFile_fields
  have dk0: "?dk ''test.log'' = [] @ recordBytes BeginRecord 1 (of_nat (length ([] :: byte list)))
      @ exCommit 13"
    by (simp add: exBegin_def)
  have dk1: "?dk ''test.log'' = exBegin @ recordBytes CommitRecord 1 (of_nat (length exBegin)) @ []"
    by (simp add: exCommit_def)
  have p0: "ForwardIterator_pull 32 (logAt exLogFile 0) ?dk = Some (Inr (Some ?b), logAt exLogFile 13, ?dk)"
    using pull_ex [where dk = ?dk and pre = "[]" and post = "exCommit 13", OF dk0 types_differ(1)]
    by simp
  have p1: "ForwardIterator_pull 32 (logAt exLogFile 13) ?dk = Some (Inr (Some ?c), logAt exLogFile 26, ?dk)"
    using pull_ex [where dk = ?dk and pre = exBegin and post = "[]", OF dk1 types_differ(3)]
    by simp
  have p2: "ForwardIterator_pull 32 (logAt exLogFile 26) ?dk = Some (Inr None, logAt exLogFile 26, ?dk)"
    by (rule pull_EOF) (simp_all add: f)
  show ?thesis
    by (simp add: redoLoop.simps [of _ _ "logAt exLogFile 0"] p0 redoBody_def types_differ
        redoLoop.simps [of _ _ "logAt exLogFile 13"] p1
        redoLoop.simps [of _ _ "logAt exLogFile 26"] p2)
qed

lemma images_differ: "exOneImage \<noteq> emptyImage 511"
proof
  assume "exOneImage = emptyImage 511"
  then have "exOneImage ! 4 = emptyImage 511 ! 4" by simp
  then show False
    by (simp add: exOneImage_def emptyImage_def nth_append length_le_bytes le_bytes_def)
qed

lemma logs_differ:
  "emptyDisk(''test.log'' := exBegin @ exAbort 13 @ exAbort 26)
     \<noteq> emptyDisk(''test.log'' := exBegin @ exAbort 13)"
proof
  assume "emptyDisk(''test.log'' := exBegin @ exAbort 13 @ exAbort 26)
     = emptyDisk(''test.log'' := exBegin @ exAbort 13)"
  then have "length ((emptyDisk(''test.log'' := exBegin @ exAbort 13 @ exAbort 26)) ''test.log'')
     = length ((emptyDisk(''test.log'' := exBegin @ exAbort 13)) ''test.log'')"
    by simp
  then show False by simp
qed

text \<open>
  Claim C1 fails on the code. In the first loop of \<open>Recover\<close> an \<open>Abort\<close> record removes
  nothing from \<open>losers\<close>, whatever the transaction and the map: the case is empty and a Go
  \<open>switch\<close> does not fall through to the \<open>Commit\<close> case, which deletes the transaction.
  The log file here is the one that \<open>LogBegin\<close>, \<open>LogUpdate\<close>, \<open>LogAbort\<close>
  and \<open>Force\<close> write for transaction 1, which puts one tuple on the empty page 0 of
  \<open>t.dat\<close> and aborts. After the first loop transaction 1 is still in \<open>losers\<close>, with the
  after image on disk; \<open>Recover\<close> then writes the before image over it and appends a second
  \<open>Abort\<close> record for transaction 1 to the log file, whatever the bound of at least 4 on
  the rounds of its second loop. In the log file that \<open>LogBegin\<close>, \<open>LogCommit\<close> and
  \<open>Force\<close> write, the \<open>Commit\<close> record does remove the transaction.
\<close>

theorem Recover_treats_aborted_as_loser:
  "redoBody sl bp dk losers (GenericLogRecord off AbortRecord tid) = Some (None, bp, dk, losers)
   \<and> redoBody sl bp dk losers (GenericLogRecord off CommitRecord tid)
     = Some (None, bp, dk, AList.delete tid losers)
   \<and> Force (LogAbort (snd (LogUpdate 32 (LogBegin exLogFile 1) 1 (Some exCleanPage) (Some exOnePage))) 1)
       emptyDisk
     = (None, logAt exLogFile 8247, emptyDisk(''test.log'' := exBegin @ exUpdate @ exAbort 8234))
   \<and> redoLoop 32 (exEmptyPool 2) (logAt exLogFile 0)
         (emptyDisk(''test.log'' := exBegin @ exUpdate @ exAbort 8234)) []
     = Some (Inr [(1, 0)], exEmptyPool 2, logAt exLogFile 8247,
         emptyDisk(''test.log'' := exBegin @ exUpdate @ exAbort 8234, ''t.dat'' := exOneImage))
   \<and> Recover (Suc (Suc (Suc (Suc n)))) 32 (exEmptyPool 2) (logAt exLogFile 8247)
         (emptyDisk(''test.log'' := exBegin @ exUpdate @ exAbort 8234))
     = Some (None, exEmptyPool 2, logAt exLogFile 8260,
         emptyDisk(''t.dat'' := emptyImage 511,
           ''test.log'' := exBegin @ exUpdate @ exAbort 8234 @ exAbort 8247))
   \<and> exOneImage \<noteq> emptyImage 511
   \<and> Force (LogCommit (LogBegin exLogFile 1) 1) emptyDisk
     = (None, logAt exLogFile 26, emptyDisk(''test.log'' := exBegin @ exCommit 13))
   \<and> redoLoop 32 (exEmptyPool 2) (logAt exLogFile 0)
         (emptyDisk(''test.log'' := exBegin @ exCommit 13)) []
     = Some (Inr [], exEmptyPool 2, logAt exLogFile 26,
         emptyDisk(''test.log'' := exBegin @ exCommit 13))"
  using write_exUpdate Recover_exUpdate(1) Recover_exUpdate(2) [of n] images_differ write_exCommit
    redo_exCommit
  by (simp add: redoBody_def types_differ)

text \<open>
  Claim C4 fails on the code. For the log file that \<open>LogBegin\<close> and \<open>Force\<close> write for a
  transaction 1 that never ended, \<open>Recover\<close> appends an \<open>Abort\<close> record for transaction 1.
  Run again on the log file and the disk that it left, \<open>Recover\<close> takes transaction 1 for
  a loser once more, since the \<open>Abort\<close> record removes nothing from \<open>losers\<close>, and appends
  a second \<open>Abort\<close> record: the log file after the second run is not the log file after
  the first. This holds for every bound on the rounds of the second loop within which the
  run ends, 2 rounds for the first run and 3 for the second.
\<close>

theorem Recover_twice_grows_log:
  "Force (LogBegin exLogFile 1) emptyDisk
     = (None, logAt exLogFile 13, emptyDisk(''test.log'' := exBegin))
   \<and> Recover (Suc (Suc n)) 32 (exEmptyPool 2) (logAt exLogFile 13)
         (emptyDisk(''test.log'' := exBegin))
     = Some (None, exEmptyPool 2, logAt exLogFile 26,
         emptyDisk(''test.log'' := exBegin @ exAbort 13))
   \<and> Recover (Suc (Suc (Suc n))) 32 (exEmptyPool 2) (logAt exLogFile 26)
         (emptyDisk(''test.log'' := exBegin @ exAbort 13))
     = Some (None, exEmptyPool 2, logAt exLogFile 39,
         emptyDisk(''test.log'' := exBegin @ exAbort 13 @ exAbort 26))
   \<and> emptyDisk(''test.log'' := exBegin @ exAbort 13 @ exAbort 26)
       \<noteq> emptyDisk(''test.log'' := exBegin @ exAbort 13)"
  using write_exBegin Recover_exBegin [of n] Recover_exBegin_exAbort [of n] logs_differ by simp

section \<open>Tuples on the wire\<close>

lemma stripPadding_padded:
  assumes "s = [] \<or> last s \<noteq> 0"
  shows "stripPadding (s @ replicate m 0) = s"
proof -
  have "dropWhile (\<lambda>b. b = 0) (replicate m (0 :: byte) @ ys) = dropWhile (\<lambda>b. b = 0) ys" for ys
    by (induction m) simp_all
  moreover have "dropWhile (\<lambda>b. b = 0) (rev s) = rev s"
    using assms by (cases s rule: rev_cases) simp_all
  ultimately show ?thesis by (simp add: stripPadding_def)
qed

lemma length_writeField:
  "validValue sl ft v \<Longrightarrow> int (length (writeField sl v)) = fieldSize sl ft"
  by (cases v) (auto simp: validValue_def writeField_def fieldSize_def length_le_bytes)

lemma length_written:
  "list_all2 (validValue sl) d vs
     \<Longrightarrow> int (length (concat (map (writeField sl) vs))) = sum_list (map (fieldSize sl) d)"
  by (induction d vs rule: list_all2_induct) (simp_all add: length_writeField)

lemma length_writeTo:
  "validTuple sl d t \<Longrightarrow> int (length (writeTo sl t)) = bytesPerTuple sl d"
  by (simp add: validTuple_def writeTo_def bytesPerTuple_def length_written)

lemma readFields_written:
  "list_all2 (validValue sl) d vs
     \<Longrightarrow> readFields sl d (concat (map (writeField sl) vs) @ rest) = Inr (vs, rest)"
proof (induction d vs rule: list_all2_induct)
  case Nil
  then show ?case by simp
next
  case (Cons ft d v vs)
  show ?case
  proof (cases v)
    case (IntField x)
    then have "Ftype ft = IntType" using Cons.hyps(1) by (simp add: validValue_def)
    then show ?thesis
      using Cons.IH IntField
      by (simp add: writeField_def length_le_bytes le_word_le_bytes_64)
  next
    case (StringField s)
    then have ft: "Ftype ft = StringType" and len: "length s \<le> sl"
      and z: "s = [] \<or> last s \<noteq> 0"
      using Cons.hyps(1) by (simp_all add: validValue_def)
    then show ?thesis
      using Cons.IH StringField
      by (simp add: writeField_def stripPadding_padded)
  qed
qed

lemma readTupleFrom_written:
  "validTuple sl d t
     \<Longrightarrow> readTupleFrom sl d (writeTo sl t @ rest) = Inr (\<lparr>Desc = d, Fields = Fields t, Rid = None\<rparr>, rest)"
  by (simp add: readTupleFrom_def validTuple_def writeTo_def readFields_written)


section \<open>A page written and read back\<close>

lemma reloaded_Nil: "reloaded d pno i [] = []"
  by (simp add: reloaded_def)

lemma reloaded_Cons:
  "reloaded d pno i (t # ts) =
     Some \<lparr>Desc = d, Fields = Fields t, Rid = Some (heapFileRid pno (int i))\<rparr>
       # reloaded d pno (Suc i) ts"
proof -
  have "[i..<Suc (i + length ts)] = i # [Suc i..<Suc (i + length ts)]"
    by (rule upt_conv_Cons) simp
  then show ?thesis by (simp add: reloaded_def del: upt_Suc)
qed

lemma length_reloaded: "length (reloaded d pno i ts) = length ts"
  by (simp add: reloaded_def)

lemma occupied_reloaded:
  "map Fields (occupied (reloaded d pno i ts @ replicate m None)) = map Fields ts"
  by (induction ts arbitrary: i) (simp_all add: reloaded_Nil reloaded_Cons occupied_def)

lemma readSlots_written:
  "list_all (validTuple sl d) ts \<Longrightarrow> i + length ts \<le> length tups
     \<Longrightarrow> readSlots sl d pno i (length ts) (concat (map (writeTo sl) ts) @ rest) tups
         = Some (Inr (take i tups @ reloaded d pno i ts @ drop (i + length ts) tups))"
proof (induction ts arbitrary: i tups)
  case Nil
  then show ?case by (simp add: reloaded_Nil)
next
  case (Cons t ts)
  let ?x = "Some \<lparr>Desc = d, Fields = Fields t, Rid = Some (heapFileRid pno (int i))\<rparr>"
  have v: "validTuple sl d t" and vs: "list_all (validTuple sl d) ts"
    using Cons.prems(1) by simp_all
  have i: "i < length tups" using Cons.prems(2) by simp
  have len: "Suc i + length ts \<le> length (tups[i := ?x])" using Cons.prems(2) by simp
  have "readSlots sl d pno i (length (t # ts)) (concat (map (writeTo sl) (t # ts)) @ rest) tups
      = readSlots sl d pno (Suc i) (length ts) (concat (map (writeTo sl) ts) @ rest) (tups[i := ?x])"
    using i by (simp add: readTupleFrom_written [OF v])
  also have "\<dots> = Some (Inr (take (Suc i) (tups[i := ?x]) @ reloaded d pno (Suc i) ts
      @ drop (Suc i + length ts) (tups[i := ?x])))"
    by (rule Cons.IH [OF vs len])
  also have "take (Suc i) (tups[i := ?x]) = take i tups @ [?x]"
    using i by (simp add: take_Suc_conv_app_nth)
  also have "drop (Suc i + length ts) (tups[i := ?x]) = drop (i + length (t # ts)) tups"
    by simp
  finally show ?case by (simp add: reloaded_Cons)
qed

lemma slots_bytes:
  "concat (map (\<lambda>s. case s of None \<Rightarrow> [] | Some t \<Rightarrow> writeTo sl t) slots)
     = concat (map (writeTo sl) (occupied slots))"
  by (induction slots) (auto simp: occupied_def)

lemma length_tuples_written:
  "list_all (validTuple sl d) ts
     \<Longrightarrow> int (length (concat (map (writeTo sl) ts))) = int (length ts) * bytesPerTuple sl d"
  by (induction ts) (simp_all add: length_writeTo algebra_simps)

lemma length_occupied: "length (occupied slots) \<le> length slots"
  by (simp add: occupied_def)


lemma written_cong:
  assumes "map Fields xs = map Fields ys"
  shows "concat (map (writeTo sl) xs) = concat (map (writeTo sl) ys)"
proof -
  have e: "concat (map (writeTo sl) zs)
      = concat (map (\<lambda>fs. concat (map (writeField sl) fs)) (map Fields zs))" for zs
    by (induction zs) (simp_all add: writeTo_def)
  show ?thesis by (simp only: e assms)
qed

lemma toBuffer_cong:
  assumes "numSlots a = numSlots b" "numUsed a = numUsed b"
    and "map Fields (occupied (tuples a)) = map Fields (occupied (tuples b))"
  shows "toBuffer sl a = toBuffer sl b"
proof -
  have "concat (map (writeTo sl) (occupied (tuples a)))
      = concat (map (writeTo sl) (occupied (tuples b)))"
    by (rule written_cong [OF assms(3)])
  then show ?thesis
    by (simp add: toBuffer_def slots_bytes assms(1,2))
qed

lemma pageInv_fits:
  assumes "pageInv sl h"
  shows "int (length (concat (map (writeTo sl) (occupied (tuples h))))) \<le> 4088"
proof -
  let ?b = "bytesPerTuple sl (desc h)"
  let ?k = "int (length (occupied (tuples h)))"
  have len: "int (length (concat (map (writeTo sl) (occupied (tuples h))))) = ?k * ?b"
    using assms by (simp add: pageInv_def length_tuples_written)
  have k: "?k \<le> 4088 div ?b"
    using assms length_occupied [of "tuples h"] by (simp add: pageInv_def PageSize_def) linarith
  have b: "0 \<le> ?b" by (rule bytesPerTuple_nonneg)
  show ?thesis
  proof (cases "?b = 0")
    case True
    then have "?k * ?b = 0" by simp
    then show ?thesis using len by linarith
  next
    case False
    then have pos: "0 < ?b" using b by simp
    have "?k * ?b \<le> (4088 div ?b) * ?b"
      using k pos by (simp add: mult_right_mono)
    also have "\<dots> \<le> 4088"
    proof -
      have "(4088 :: int) = (4088 div ?b) * ?b + 4088 mod ?b"
        by (rule div_mult_mod_eq [symmetric])
      moreover have "0 \<le> 4088 mod ?b" using pos by simp
      ultimately show ?thesis by linarith
    qed
    finally show ?thesis using len by simp
  qed
qed

lemma toBuffer_pageInv:
  assumes "pageInv sl h"
  shows "toBuffer sl h = Inr (le_bytes 4 (numSlots h) @ le_bytes 4 (numUsed h)
      @ concat (map (writeTo sl) (occupied (tuples h)))
      @ replicate (4088 - length (concat (map (writeTo sl) (occupied (tuples h))))) 0)"
  using pageInv_fits [OF assms]
  by (simp add: toBuffer_def slots_bytes length_le_bytes PageSize_def Let_def nat_diff_distrib')

lemma initFromBuffer_written:
  assumes inv: "pageInv sl h" and d: "desc h0 = desc h"
  shows "initFromBuffer sl h0 (le_bytes 4 (numSlots h) @ le_bytes 4 (numUsed h)
      @ concat (map (writeTo sl) (occupied (tuples h))) @ rest)
    = Some (Inr (h0\<lparr>numSlots := numSlots h, numUsed := numUsed h, dirty := False,
        tuples := reloaded (desc h) (pageNo h0) 0 (occupied (tuples h))
          @ replicate (length (tuples h) - length (occupied (tuples h))) None\<rparr>))"
proof -
  let ?ts = "occupied (tuples h)"
  have used: "nat (sint (numUsed h)) = length ?ts"
    using inv by (simp add: pageInv_def)
  have slots: "nat (sint (numSlots h)) = length (tuples h)" "\<not> sint (numSlots h) < 0"
    using inv by (simp_all add: pageInv_def)
  have valid: "list_all (validTuple sl (desc h)) ?ts"
    using inv by (simp add: pageInv_def)
  have "readSlots sl (desc h) (pageNo h0) 0 (length ?ts) (concat (map (writeTo sl) ?ts) @ rest)
      (replicate (length (tuples h)) None)
    = Some (Inr (take 0 (replicate (length (tuples h)) None)
        @ reloaded (desc h) (pageNo h0) 0 ?ts
        @ drop (0 + length ?ts) (replicate (length (tuples h)) None)))"
    by (rule readSlots_written [OF valid]) (simp add: length_occupied)
  then show ?thesis
    by (simp add: initFromBuffer_def readInt32_le_bytes used slots d)
qed

text \<open>
  Claim C5. For every heap page that satisfies the invariants of the spec, \<open>toBuffer\<close>
  gives its serialization, \<open>initFromBuffer\<close> (on any page object with the same
  descriptor) parses it into a page with the same multiset of tuple field vectors, and
  serializing that page gives the same bytes again; this holds whether or not every slot
  is occupied.
\<close>

theorem heapPage_roundtrip:
  assumes "pageInv sl h" and "desc h0 = desc h"
  shows "\<exists>bs h'. toBuffer sl h = Inr bs \<and> initFromBuffer sl h0 bs = Some (Inr h')
      \<and> mset (map Fields (occupied (tuples h'))) = mset (map Fields (occupied (tuples h)))
      \<and> toBuffer sl h' = Inr bs"
proof -
  let ?ts = "occupied (tuples h)"
  let ?body = "concat (map (writeTo sl) ?ts)"
  let ?pad = "replicate (4088 - length ?body) (0 :: byte)"
  let ?bs = "le_bytes 4 (numSlots h) @ le_bytes 4 (numUsed h) @ ?body @ ?pad"
  let ?h' = "h0\<lparr>numSlots := numSlots h, numUsed := numUsed h, dirty := False,
        tuples := reloaded (desc h) (pageNo h0) 0 ?ts
          @ replicate (length (tuples h) - length ?ts) None\<rparr>"
  have 1: "toBuffer sl h = Inr ?bs" by (rule toBuffer_pageInv [OF assms(1)])
  have 2: "initFromBuffer sl h0 ?bs = Some (Inr ?h')"
    by (rule initFromBuffer_written [OF assms])
  have 3: "map Fields (occupied (tuples ?h')) = map Fields ?ts"
    by (simp add: occupied_reloaded)
  have "toBuffer sl ?h' = toBuffer sl h"
    by (rule toBuffer_cong) (simp_all add: occupied_reloaded)
  then have 4: "toBuffer sl ?h' = Inr ?bs" using 1 by simp
  from 1 2 3 4 show ?thesis by metis
qed

lemma list_all2_replicate: "P x y \<Longrightarrow> list_all2 P (replicate n x) (replicate n y)"
  by (induction n) simp_all

theorem heapPage_roundtrip_witness:
  "pageInv 32 exFilledPage \<and> desc (oneSlotPage 0) = desc exFilledPage
   \<and> occupied (tuples exFilledPage) = [(oneSlotTuple 1)\<lparr>Rid := Some (heapFileRid 0 0)\<rparr>]
   \<and> (\<exists>bs h'. toBuffer 32 exFilledPage = Inr bs
        \<and> initFromBuffer 32 (oneSlotPage 0) bs = Some (Inr h')
        \<and> mset (map Fields (occupied (tuples h'))) = mset (map Fields (occupied (tuples exFilledPage)))
        \<and> toBuffer 32 h' = Inr bs)"
proof -
  have occ: "occupied (tuples exFilledPage) = [(oneSlotTuple 1)\<lparr>Rid := Some (heapFileRid 0 0)\<rparr>]"
    by (simp add: exFilledPage_def oneSlotPage_def occupied_def)
  have v: "validTuple 32 (replicate 511 intColumn) ((oneSlotTuple 1)\<lparr>Rid := Some (heapFileRid 0 0)\<rparr>)"
    by (simp add: validTuple_def oneSlotTuple_def list_all2_replicate validValue_def intColumn_def)
  have inv: "pageInv 32 exFilledPage"
    using v by (simp add: pageInv_def occ)
      (simp add: exFilledPage_def oneSlotPage_def bytesPerTuple_intColumns PageSize_def)
  have d: "desc (oneSlotPage 0) = desc exFilledPage"
    by (simp add: exFilledPage_def)
  show ?thesis
    using heapPage_roundtrip [OF inv d] inv d occ by simp
qed

section \<open>Pages built by the page operations are well-formed\<close>

lemma occupied_replicate_None: "occupied (replicate n None) = []"
  by (simp add: occupied_def)

lemma pageInv_newHeapPage:
  assumes "newHeapPage sl d pno f = Some hp"
  shows "pageInv sl hp"
proof -
  have ne: "bytesPerTuple sl d \<noteq> 0"
    using assms by (auto simp: newHeapPage_def)
  then have pos: "0 < bytesPerTuple sl d"
    using bytesPerTuple_nonneg [of sl d] by simp
  have hp: "hp = \<lparr>desc = d, numSlots = word_of_int ((PageSize - 8) div bytesPerTuple sl d),
      numUsed = 0, dirty = False,
      tuples = replicate (nat ((PageSize - 8) div bytesPerTuple sl d)) None,
      pageNo = pno, hfile = f\<rparr>"
    using assms newHeapPage_Some [OF ne, of pno f] by simp
  have "0 \<le> (PageSize - 8) div bytesPerTuple sl d"
    using pos by (simp add: PageSize_def pos_imp_zdiv_nonneg_iff)
  then show ?thesis
    by (simp add: pageInv_def hp slots_in_int32 [OF pos] occupied_replicate_None)
qed

lemma occupied_append: "occupied (xs @ ys) = occupied xs @ occupied ys"
  by (simp add: occupied_def)

lemma occupied_update_None:
  assumes "i < length slots" "slots ! i = None"
  shows "occupied (slots[i := Some t]) = occupied (take i slots) @ t # occupied (drop (Suc i) slots)"
    and "occupied slots = occupied (take i slots) @ occupied (drop (Suc i) slots)"
proof -
  have "slots[i := Some t] = take i slots @ Some t # drop (Suc i) slots"
    using assms(1) by (rule upd_conv_take_nth_drop)
  then show "occupied (slots[i := Some t]) = occupied (take i slots) @ t # occupied (drop (Suc i) slots)"
    by (simp add: occupied_def)
  have "slots = take i slots @ None # drop (Suc i) slots"
    using assms id_take_nth_drop [of i slots] by simp
  then have "occupied slots = occupied (take i slots @ None # drop (Suc i) slots)"
    by simp
  then show "occupied slots = occupied (take i slots) @ occupied (drop (Suc i) slots)"
    by (simp add: occupied_def)
qed

lemma occupied_update_Some:
  assumes "i < length slots" "slots ! i = Some t"
  shows "occupied (slots[i := None]) = occupied (take i slots) @ occupied (drop (Suc i) slots)"
    and "occupied slots = occupied (take i slots) @ t # occupied (drop (Suc i) slots)"
proof -
  have "slots[i := None] = take i slots @ None # drop (Suc i) slots"
    using assms(1) by (rule upd_conv_take_nth_drop)
  then show "occupied (slots[i := None]) = occupied (take i slots) @ occupied (drop (Suc i) slots)"
    by (simp add: occupied_def)
  have "slots = take i slots @ Some t # drop (Suc i) slots"
    using assms id_take_nth_drop [of i slots] by simp
  then have "occupied slots = occupied (take i slots @ Some t # drop (Suc i) slots)"
    by simp
  then show "occupied slots = occupied (take i slots) @ t # occupied (drop (Suc i) slots)"
    by (simp add: occupied_def)
qed

lemma insertScan_Inr:
  "insertScan h t i k = Some (Inr (h', t'))
     \<Longrightarrow> \<exists>j. i \<le> j \<and> j < length (tuples h) \<and> tuples h ! j = None
           \<and> t' = t\<lparr>Rid := Some (heapFileRid (pageNo h) (int j))\<rparr>
           \<and> h' = h\<lparr>tuples := (tuples h)[j := Some t'], numUsed := numUsed h + 1\<rparr>"
proof (induction k arbitrary: i)
  case 0
  then show ?case by simp
next
  case (Suc k)
  show ?case
  proof (cases "tuples h ! i")
    case None
    then show ?thesis using Suc.prems by (auto simp: Let_def split: if_splits)
  next
    case (Some x)
    then have "insertScan h t (Suc i) k = Some (Inr (h', t'))"
      using Suc.prems by (auto split: if_splits)
    from Suc.IH [OF this] show ?thesis by (auto intro: Suc_leD)
  qed
qed

lemma sint_succ:
  assumes "0 \<le> sint (w :: 32 word)" "sint w < 4088"
  shows "sint (w + 1) = sint w + 1"
proof -
  have "sint (w + 1) = signed_take_bit 31 (sint w + 1)"
    by (simp add: sint_word_ariths)
  also have "\<dots> = sint w + 1"
    using assms by (intro signed_take_bit_int_eq_self) simp_all
  finally show ?thesis .
qed

lemma sint_pred:
  assumes "0 < sint (w :: 32 word)"
  shows "sint (w - 1) = sint w - 1"
proof -
  have "sint w < 2 ^ 31" using sint_lt [of w] by simp
  have "sint (w - 1) = signed_take_bit 31 (sint w - 1)"
    by (simp add: sint_word_ariths)
  also have "\<dots> = sint w - 1"
    using assms \<open>sint w < 2 ^ 31\<close> by (intro signed_take_bit_int_eq_self) simp_all
  finally show ?thesis .
qed

lemma pageInv_slots_bound:
  assumes "pageInv sl h"
  shows "sint (numSlots h) \<le> 4088"
proof (cases "bytesPerTuple sl (desc h) = 0")
  case True
  then show ?thesis using assms by (simp add: pageInv_def)
next
  case False
  then have "0 < bytesPerTuple sl (desc h)"
    using bytesPerTuple_nonneg [of sl "desc h"] by simp
  then have "(PageSize - 8) div bytesPerTuple sl (desc h) \<le> PageSize - 8"
    by (simp add: PageSize_def int_div_le_self)
  then show ?thesis using assms by (simp add: pageInv_def PageSize_def)
qed

lemma pageInv_insertTuple:
  assumes inv: "pageInv sl h" and v: "validTuple sl (desc h) t"
    and ins: "page_insertTuple h t = Some (Inr (h', t'))"
  shows "pageInv sl h'"
proof -
  from ins obtain j where j: "j < length (tuples h)" "tuples h ! j = None"
    and t': "t' = t\<lparr>Rid := Some (heapFileRid (pageNo h) (int j))\<rparr>"
    and h': "h' = h\<lparr>tuples := (tuples h)[j := Some t'], numUsed := numUsed h + 1\<rparr>"
    using insertScan_Inr [of h t 0 _ h' t'] by (auto simp: page_insertTuple_def)
  have occ': "occupied ((tuples h)[j := Some t']) = occupied (take j (tuples h)) @ t' # occupied (drop (Suc j) (tuples h))"
    and occ: "occupied (tuples h) = occupied (take j (tuples h)) @ occupied (drop (Suc j) (tuples h))"
    using occupied_update_None [OF j] by simp_all
  have v': "validTuple sl (desc h) t'" using v by (simp add: t' validTuple_def)
  have "length (occupied (tuples h)) < length (tuples h)"
  proof -
    have "length (occupied (take j (tuples h))) \<le> j"
      using length_occupied [of "take j (tuples h)"] j(1) by simp
    moreover have "length (occupied (drop (Suc j) (tuples h))) \<le> length (tuples h) - Suc j"
      using length_occupied [of "drop (Suc j) (tuples h)"] by simp
    ultimately show ?thesis using occ j(1) by simp
  qed
  then have "sint (numUsed h) < sint (numSlots h)"
    using inv by (simp add: pageInv_def)
  then have used: "sint (numUsed h + 1) = sint (numUsed h) + 1"
    using pageInv_slots_bound [OF inv] inv by (intro sint_succ) (simp_all add: pageInv_def)
  show ?thesis
    using inv v' used by (simp add: pageInv_def occ' h') (simp add: occ)
qed

lemma pageInv_deleteTuple:
  assumes inv: "pageInv sl h"
    and del: "page_deleteTuple h rid = Some (None, h')"
  shows "pageInv sl h'"
proof -
  from del obtain pno slot x where rid: "rid = heapFileRid pno slot"
    and slot: "0 \<le> slot" "nat slot < length (tuples h)" "tuples h ! nat slot = Some x"
    and h': "h' = h\<lparr>numUsed := numUsed h - 1, tuples := (tuples h)[nat slot := None]\<rparr>"
    by (cases rid) (auto simp: page_deleteTuple_def split: if_splits option.splits)
  have occ': "occupied ((tuples h)[nat slot := None]) = occupied (take (nat slot) (tuples h)) @ occupied (drop (Suc (nat slot)) (tuples h))"
    and occ: "occupied (tuples h) = occupied (take (nat slot) (tuples h)) @ x # occupied (drop (Suc (nat slot)) (tuples h))"
    using occupied_update_Some [OF slot(2,3)] by simp_all
  have "0 < sint (numUsed h)" using inv occ by (simp add: pageInv_def)
  then have used: "sint (numUsed h - 1) = sint (numUsed h) - 1" by (rule sint_pred)
  show ?thesis
    using inv used by (simp add: pageInv_def occ' h') (simp add: occ)
qed

end
